theory Spec2Isabelle
  imports Complex_Main "HOL-Library.Multiset"
begin

section \<open>Geospatial compliance analytics: data model\<close>

text \<open>
  Shallow embedding of \<^verbatim>\<open>GeospatialAnalyticsService.analyzeComplianceReports\<close>
  (\<^verbatim>\<open>src/services/analyticService.ts\<close>) and of the \<^verbatim>\<open>analyzeCompliance\<close> handler
  (\<^verbatim>\<open>src/controllers/analytics/Analytics.ts\<close>).

  A JavaScript \<^verbatim>\<open>number\<close> is either \<^verbatim>\<open>NaN\<close> or a number; numbers are idealised as
  reals, so rounding and the infinities are outside the model. An optional field
  (\<^verbatim>\<open>latitude?: number\<close>) is an \<open>option\<close>, \<open>None\<close> standing for \<^verbatim>\<open>undefined\<close>; an optional,
  nullable object (\<^verbatim>\<open>location?: {...} | null\<close>) is an \<open>option\<close> too, since the code reads it
  through \<^verbatim>\<open>?.\<close> only, which treats \<^verbatim>\<open>null\<close> and \<^verbatim>\<open>undefined\<close> alike.
  A \<^verbatim>\<open>Date\<close> is its time value in milliseconds, or the invalid date.
  The fields of a report that the service never reads (scanned data, image URLs, notes)
  are left out, and so is the \<^verbatim>\<open>timestamp\<close> of the result, which is the wall clock.
\<close>

datatype jsnum = NaN | Num real

fun isNaN :: "jsnum \<Rightarrow> bool" where
  "isNaN NaN = True"
| "isNaN (Num x) = False"

datatype jsdate = InvalidDate | Date int

datatype ComplianceStatus = COMPLIANT | NON_COMPLIANT | FRAUDULENT

datatype error = Error string | RangeError string | TypeError string

record Location =
  latitude :: "jsnum option"
  longitude :: "jsnum option"
  address :: "string option"

record AnalyticsComplianceReport =
  report_id :: string
  agentId :: string
  status :: ComplianceStatus
  createdAt :: jsdate
  location :: "Location option"

text \<open>A GeoJSON point feature with the properties the service attaches to it;
  \<open>coordinates\<close> is \<^verbatim>\<open>[longitude, latitude]\<close>, \<open>cluster\<close> is the property that
  the clustering adds (\<open>None\<close> when it is \<^verbatim>\<open>undefined\<close>).\<close>

record Feature =
  coordinates :: "real \<times> real"
  reportIndex :: nat
  reportId :: string
  agentId_p :: string
  status_p :: ComplianceStatus
  createdAt_p :: int
  cluster :: "int option"

record ClusterPoint =
  index :: nat
  coordinates' :: "real \<times> real"
  lng :: real
  lat :: real
  report :: AnalyticsComplianceReport
  clusterId :: int

record ComplianceStats =
  compliant :: nat
  non_compliant :: nat
  fraudulent :: nat

record Center =
  latitude' :: real
  longitude' :: real

record ClusterInfo =
  cluster_id :: int
  size' :: nat
  center :: Center
  radius_km :: real
  points :: "ClusterPoint list"
  compliance_stats :: ComplianceStats

record ComplianceOverview =
  total_compliant :: nat
  total_non_compliant :: nat
  total_fraudulent :: nat

record ClusteringParams =
  eps_km :: real
  min_samples :: real

record Summary =
  total_points :: nat
  n_clusters :: nat
  n_noise_points :: nat
  noise_percentage :: real
  compliance_overview :: ComplianceOverview

record AnalyticsResults =
  clustering_params :: ClusteringParams
  summary :: Summary
  clusters :: "ClusterInfo list"
  noise_points :: "ClusterPoint list"


section \<open>The geometry library\<close>

text \<open>
  Modelled from the spec: \<^verbatim>\<open>turf.distance\<close> of the external library \<^verbatim>\<open>@turf/turf\<close>, which
  is not part of the repository. The spec says that the distance between two points is the
  great-circle (haversine) distance in kilometres between two latitude/longitude pairs.
  The haversine formula is written with the two-argument arctangent and the mean earth
  radius of 6371.0088 km; a point is \<^verbatim>\<open>[longitude, latitude]\<close> in degrees.
\<close>

definition earthRadius :: real where
  "earthRadius = 6371.0088"

definition degreesToRadians :: "real \<Rightarrow> real" where
  "degreesToRadians d = d * pi / 180"

definition atan2 :: "real \<Rightarrow> real \<Rightarrow> real" where
  "atan2 y x =
     (if 0 < x then arctan (y / x)
      else if x < 0 then (if 0 \<le> y then arctan (y / x) + pi else arctan (y / x) - pi)
      else if 0 < y then pi / 2
      else if y < 0 then - (pi / 2)
      else 0)"

definition haversine :: "real \<times> real \<Rightarrow> real \<times> real \<Rightarrow> real" where
  "haversine p q =
     (let dLat = degreesToRadians (snd q - snd p);
          dLon = degreesToRadians (fst q - fst p);
          lat1 = degreesToRadians (snd p);
          lat2 = degreesToRadians (snd q)
      in (sin (dLat / 2))\<^sup>2 + (sin (dLon / 2))\<^sup>2 * cos lat1 * cos lat2)"

definition distance :: "real \<times> real \<Rightarrow> real \<times> real \<Rightarrow> real" where
  "distance p q =
     (let a = haversine p q
      in earthRadius * (2 * atan2 (sqrt a) (sqrt (1 - a))))"

text \<open>
  Modelled from the spec: \<^verbatim>\<open>turf.clustersDbscan\<close> of the external library \<^verbatim>\<open>@turf/turf\<close>,
  which is not part of the repository. The spec (core algorithm, steps 3 to 7) says: the
  neighbourhood of a point is every point, itself included, within \<open>epsilonKm\<close> of it; a
  point is a core point when its neighbourhood has at least \<open>minPoints\<close> points; the input
  is iterated in order, an unvisited core point seeds a new cluster, the cluster absorbs
  every point of the seed's neighbourhood, and the neighbourhood of every absorbed core
  point in turn; a point that is already in a cluster is not reassigned; a point that no
  cluster absorbs is noise; cluster identifiers count up from 0 in the order of discovery.
  The expansion is a worklist, as the spec's design notes ask.
\<close>

definition regionQuery :: "(real \<times> real) list \<Rightarrow> real \<Rightarrow> nat \<Rightarrow> nat list" where
  "regionQuery ps eps i = filter (\<lambda>j. distance (ps ! i) (ps ! j) \<le> eps) [0..<length ps]"

definition unvisited :: "bool list \<Rightarrow> nat" where
  "unvisited vis = length (filter (\<lambda>b. \<not> b) vis)"

function expandCluster ::
  "(real \<times> real) list \<Rightarrow> real \<Rightarrow> real \<Rightarrow> int \<Rightarrow> nat list \<Rightarrow>
     bool list \<times> int option list \<Rightarrow> bool list \<times> int option list" where
  "expandCluster ps eps minPts cid [] (vis, lab) = (vis, lab)"
| "expandCluster ps eps minPts cid (j # ws) (vis, lab) =
     (let fresh = (j < length vis \<and> \<not> vis ! j);
          nb = regionQuery ps eps j;
          vis' = (if fresh then vis[j := True] else vis);
          ws' = (if fresh \<and> minPts \<le> real (length nb) then ws @ nb else ws);
          lab' = (if j < length lab \<and> lab ! j = None then lab[j := Some cid] else lab)
      in expandCluster ps eps minPts cid ws' (vis', lab'))"
  by pat_completeness auto

termination expandCluster
proof -
  have upd: "unvisited (vis[j := True]) < unvisited vis"
    if "j < length vis" and "\<not> vis ! j" for vis :: "bool list" and j
    using that
  proof (induction vis arbitrary: j)
    case Nil
    then show ?case by simp
  next
    case (Cons b bs)
    then show ?case
      by (cases j) (auto simp: unvisited_def)
  qed
  show ?thesis
    by (relation "measures [\<lambda>(ps, eps, minPts, cid, ws, vis, lab). unvisited vis,
                            \<lambda>(ps, eps, minPts, cid, ws, vis, lab). length ws]")
       (auto simp: upd)
qed

fun dbscanLoop ::
  "(real \<times> real) list \<Rightarrow> real \<Rightarrow> real \<Rightarrow> nat list \<Rightarrow>
     bool list \<times> int option list \<times> int \<Rightarrow> bool list \<times> int option list \<times> int" where
  "dbscanLoop ps eps minPts [] st = st"
| "dbscanLoop ps eps minPts (i # is) (vis, lab, nextId) =
     (if vis ! i then dbscanLoop ps eps minPts is (vis, lab, nextId)
      else
        (let nb = regionQuery ps eps i
         in if minPts \<le> real (length nb)
            then (case expandCluster ps eps minPts nextId nb (vis[i := True], lab) of
                    (vis', lab') \<Rightarrow> dbscanLoop ps eps minPts is (vis', lab', nextId + 1))
            else dbscanLoop ps eps minPts is (vis, lab, nextId)))"

definition dbscanLabels :: "(real \<times> real) list \<Rightarrow> real \<Rightarrow> real \<Rightarrow> int option list" where
  "dbscanLabels ps eps minPts =
     (let n = length ps
      in fst (snd (dbscanLoop ps eps minPts [0..<n] (replicate n False, replicate n None, 0))))"

definition clustersDbscan :: "Feature list \<Rightarrow> real \<Rightarrow> real \<Rightarrow> Feature list" where
  "clustersDbscan features eps minPts =
     map (\<lambda>(f, l). f\<lparr>cluster := l\<rparr>)
       (zip features (dbscanLabels (map coordinates features) eps minPts))"


section \<open>The service: \<^verbatim>\<open>analyzeComplianceReports\<close>\<close>

text \<open>The filter of lines 20 to 25: both coordinates are not \<^verbatim>\<open>undefined\<close> and not \<^verbatim>\<open>NaN\<close>.\<close>

definition hasValidLocation :: "AnalyticsComplianceReport \<Rightarrow> bool" where
  "hasValidLocation r =
     (case location r of
        None \<Rightarrow> False
      | Some loc \<Rightarrow>
          (case (latitude loc, longitude loc) of
             (Some la, Some lo) \<Rightarrow> \<not> isNaN la \<and> \<not> isNaN lo
           | _ \<Rightarrow> False))"

definition noLocationMessage :: string where
  "noLocationMessage = ''No reports with valid location data found''"

text \<open>\<^verbatim>\<open>Date.prototype.toISOString\<close> throws a \<^verbatim>\<open>RangeError\<close> on the invalid date; the
  string it returns otherwise is determined by the time value, which stands for it here.\<close>

fun toISOString :: "jsdate \<Rightarrow> error + int" where
  "toISOString InvalidDate = Inl (RangeError ''Invalid time value'')"
| "toISOString (Date t) = Inr t"

text \<open>Lines 33 to 49: one report becomes one point feature. Reading a coordinate of a
  missing location is a \<^verbatim>\<open>TypeError\<close>, and \<^verbatim>\<open>turf.point\<close> rejects a coordinate that is
  not a number; after the filter every report has a location and both coordinates are
  numbers, so neither happens.\<close>

definition toFeature :: "nat \<Rightarrow> AnalyticsComplianceReport \<Rightarrow> error + Feature" where
  "toFeature i r =
     (case location r of
        None \<Rightarrow> Inl (TypeError ''Cannot read properties of null'')
      | Some loc \<Rightarrow>
          (case (longitude loc, latitude loc) of
             (Some (Num x), Some (Num y)) \<Rightarrow>
               (case toISOString (createdAt r) of
                  Inl e \<Rightarrow> Inl e
                | Inr created \<Rightarrow>
                    Inr \<lparr>coordinates = (x, y), reportIndex = i, reportId = report_id r,
                         agentId_p = agentId r, status_p = status r, createdAt_p = created,
                         cluster = None\<rparr>)
           | _ \<Rightarrow> Inl (Error ''coordinates must contain numbers'')))"

fun collect :: "(error + 'a) list \<Rightarrow> error + 'a list" where
  "collect [] = Inr []"
| "collect (x # xs) =
     (case x of
        Inl e \<Rightarrow> Inl e
      | Inr v \<Rightarrow> (case collect xs of Inl e \<Rightarrow> Inl e | Inr vs \<Rightarrow> Inr (v # vs)))"

definition toFeatures :: "AnalyticsComplianceReport list \<Rightarrow> error + Feature list" where
  "toFeatures rs = collect (map (\<lambda>(i, r). toFeature i r) (zip [0..<length rs] rs))"

text \<open>Lines 61 to 87: the \<^verbatim>\<open>Map\<close> from cluster identifier to points is an association
  list in insertion order, which is the order \<^verbatim>\<open>Map.entries()\<close> iterates in.\<close>

type_synonym grouping = "(int \<times> ClusterPoint list) list \<times> ClusterPoint list"

definition has :: "(int \<times> ClusterPoint list) list \<Rightarrow> int \<Rightarrow> bool" where
  "has m k = (k \<in> set (map fst m))"

definition push :: "(int \<times> ClusterPoint list) list \<Rightarrow> int \<Rightarrow> ClusterPoint \<Rightarrow>
    (int \<times> ClusterPoint list) list" where
  "push m k cp = map (\<lambda>(k', ps). if k' = k then (k', ps @ [cp]) else (k', ps)) m"

definition toClusterPoint ::
  "AnalyticsComplianceReport list \<Rightarrow> nat \<Rightarrow> Feature \<Rightarrow> ClusterPoint" where
  "toClusterPoint reportsWithLocation idx feature =
     \<lparr>index = idx, coordinates' = coordinates feature,
      lng = fst (coordinates feature), lat = snd (coordinates feature),
      report = reportsWithLocation ! reportIndex feature,
      clusterId = (case cluster feature of None \<Rightarrow> - 1 | Some c \<Rightarrow> c)\<rparr>"

definition addPoint ::
  "AnalyticsComplianceReport list \<Rightarrow> grouping \<Rightarrow> nat \<times> Feature \<Rightarrow> grouping" where
  "addPoint reportsWithLocation g x =
     (case (g, x) of ((clusterMap, noisePoints), (idx, feature)) \<Rightarrow>
        (let clusterPoint = toClusterPoint reportsWithLocation idx feature
         in case cluster feature of
              None \<Rightarrow> (clusterMap, noisePoints @ [clusterPoint])
            | Some c \<Rightarrow>
                if c = - 1 then (clusterMap, noisePoints @ [clusterPoint])
                else (push (if has clusterMap c then clusterMap else clusterMap @ [(c, [])])
                        c clusterPoint, noisePoints)))"

definition groupPoints ::
  "AnalyticsComplianceReport list \<Rightarrow> Feature list \<Rightarrow> grouping" where
  "groupPoints reportsWithLocation features =
     foldl (addPoint reportsWithLocation) ([], []) (zip [0..<length features] features)"

text \<open>Lines 90 to 131: the statistics of one cluster. The division is by the number of
  points, which is never zero for an entry of the map.\<close>

definition tally :: "ComplianceStats \<Rightarrow> ClusterPoint \<Rightarrow> ComplianceStats" where
  "tally stats p =
     (case status (report p) of
        COMPLIANT \<Rightarrow> stats\<lparr>compliant := compliant stats + 1\<rparr>
      | NON_COMPLIANT \<Rightarrow> stats\<lparr>non_compliant := non_compliant stats + 1\<rparr>
      | FRAUDULENT \<Rightarrow> stats\<lparr>fraudulent := fraudulent stats + 1\<rparr>)"

definition clusterInfo :: "int \<times> ClusterPoint list \<Rightarrow> ClusterInfo" where
  "clusterInfo e =
     (case e of (cid, pts) \<Rightarrow>
        (let centerLat = foldl (\<lambda>sum p. sum + lat p) 0 pts / real (length pts);
             centerLng = foldl (\<lambda>sum p. sum + lng p) 0 pts / real (length pts);
             maxRadius = foldl (\<lambda>m p. max m (distance (centerLng, centerLat) (lng p, lat p)))
                           0 pts;
             complianceStats = foldl tally \<lparr>compliant = 0, non_compliant = 0, fraudulent = 0\<rparr> pts
         in \<lparr>cluster_id = cid, size' = length pts,
             center = \<lparr>latitude' = centerLat, longitude' = centerLng\<rparr>,
             radius_km = maxRadius, points = pts, compliance_stats = complianceStats\<rparr>))"

text \<open>Line 134: \<^verbatim>\<open>Array.prototype.sort\<close> is stable, and the comparator \<^verbatim>\<open>b.size - a.size\<close>
  orders by descending size: a stable sort on the key \<open>- size\<close>.\<close>

definition sortBySize :: "ClusterInfo list \<Rightarrow> ClusterInfo list" where
  "sortBySize cs = sort_key (\<lambda>c. - int (size' c)) cs"

definition tallyOverall :: "ComplianceOverview \<Rightarrow> AnalyticsComplianceReport \<Rightarrow> ComplianceOverview" where
  "tallyOverall stats r =
     (case status r of
        COMPLIANT \<Rightarrow> stats\<lparr>total_compliant := total_compliant stats + 1\<rparr>
      | NON_COMPLIANT \<Rightarrow> stats\<lparr>total_non_compliant := total_non_compliant stats + 1\<rparr>
      | FRAUDULENT \<Rightarrow> stats\<lparr>total_fraudulent := total_fraudulent stats + 1\<rparr>)"

definition buildResults ::
  "AnalyticsComplianceReport list \<Rightarrow> real \<Rightarrow> real \<Rightarrow> Feature list \<Rightarrow> AnalyticsResults" where
  "buildResults reportsWithLocation epsKm minSamples clusteredPoints =
     (case groupPoints reportsWithLocation clusteredPoints of (clusterMap, noisePoints) \<Rightarrow>
        \<lparr>clustering_params = \<lparr>eps_km = epsKm, min_samples = minSamples\<rparr>,
         summary =
           \<lparr>total_points = length reportsWithLocation,
            n_clusters = length clusterMap,
            n_noise_points = length noisePoints,
            noise_percentage =
              real (length noisePoints) / real (length reportsWithLocation) * 100,
            compliance_overview =
              foldl tallyOverall
                \<lparr>total_compliant = 0, total_non_compliant = 0, total_fraudulent = 0\<rparr>
                reportsWithLocation\<rparr>,
         clusters = sortBySize (map clusterInfo clusterMap),
         noise_points = noisePoints\<rparr>)"

text \<open>Lines 13 to 168. The defaults of \<open>epsKm\<close> and \<open>minSamples\<close> (5 and 3) stand for
  arguments that are left out; here both are always given.\<close>

definition analyzeComplianceReports ::
  "AnalyticsComplianceReport list \<Rightarrow> real \<Rightarrow> real \<Rightarrow> error + AnalyticsResults" where
  "analyzeComplianceReports reports epsKm minSamples =
     (let reportsWithLocation = filter hasValidLocation reports
      in if length reportsWithLocation = 0 then Inl (Error noLocationMessage)
         else
           (case toFeatures reportsWithLocation of
              Inl e \<Rightarrow> Inl e
            | Inr geoJsonPoints \<Rightarrow>
                Inr (buildResults reportsWithLocation epsKm minSamples
                       (clustersDbscan geoJsonPoints epsKm minSamples))))"

section \<open>The handler: \<^verbatim>\<open>analyzeCompliance\<close>\<close>

text \<open>
  A request carries the two query parameters as \<^verbatim>\<open>Number(req.query.maxDistance)\<close> and
  \<^verbatim>\<open>Number(req.query.minPoints)\<close> have converted them (\<^verbatim>\<open>NaN\<close> for a missing or
  malformed parameter), and the optional \<^verbatim>\<open>agentId\<close>. The report store is a parameter:
  \<open>getMany\<close> takes the agent filter of the query and returns the rows, or the message of
  the error it rejects with. A row's coordinate is any JSON value. The handler returns
  its response together with the calls it made to the clustering engine.
\<close>

datatype jsval = JUndefined | JNull | JNumber jsnum | JString string

record RowLocation =
  latitude_r :: jsval
  longitude_r :: jsval
  address_r :: "string option"

record ComplianceReportRow =
  row_id :: string
  agentId_r :: string
  status_r :: ComplianceStatus
  createdAt_r :: jsdate
  location_r :: "RowLocation option"

record Request =
  maxDistance_q :: jsnum
  minPoints_q :: jsnum
  agentId_q :: "string option"

datatype Response =
    Status400 string
  | NoData200
  | Success200 AnalyticsResults real real string
  | Status500 string

type_synonym engineCall = "AnalyticsComplianceReport list \<times> real \<times> real"

text \<open>\<^verbatim>\<open>Number(x) || d\<close>: the default replaces \<^verbatim>\<open>NaN\<close> and zero, the falsy numbers.\<close>

definition orDefault :: "jsnum \<Rightarrow> real \<Rightarrow> real" where
  "orDefault v d = (case v of NaN \<Rightarrow> d | Num x \<Rightarrow> if x = 0 then d else x)"

fun typeofNumber :: "jsval \<Rightarrow> bool" where
  "typeofNumber (JNumber n) = True"
| "typeofNumber v = False"

fun asNumber :: "jsval \<Rightarrow> jsnum option" where
  "asNumber (JNumber n) = Some n"
| "asNumber v = None"

definition hasNumericLocation :: "ComplianceReportRow \<Rightarrow> bool" where
  "hasNumericLocation row =
     (case location_r row of
        None \<Rightarrow> False
      | Some loc \<Rightarrow> typeofNumber (latitude_r loc) \<and> typeofNumber (longitude_r loc))"

definition toAnalyticsReport :: "ComplianceReportRow \<Rightarrow> AnalyticsComplianceReport" where
  "toAnalyticsReport row =
     \<lparr>report_id = row_id row, agentId = agentId_r row, status = status_r row,
      createdAt = createdAt_r row,
      location =
        (case location_r row of
           None \<Rightarrow> None
         | Some loc \<Rightarrow>
             Some \<lparr>latitude = asNumber (latitude_r loc), longitude = asNumber (longitude_r loc),
                   address = address_r loc\<rparr>)\<rparr>"

fun message :: "error \<Rightarrow> string" where
  "message (Error m) = m"
| "message (RangeError m) = m"
| "message (TypeError m) = m"

text \<open>The query is narrowed to an agent when \<^verbatim>\<open>agentId\<close> is a non-empty string.\<close>

definition agentFilter :: "Request \<Rightarrow> string option" where
  "agentFilter req =
     (case agentId_q req of None \<Rightarrow> None | Some a \<Rightarrow> if a = [] then None else Some a)"

definition analyzeCompliance ::
  "(string option \<Rightarrow> string + ComplianceReportRow list) \<Rightarrow> Request \<Rightarrow>
     Response \<times> engineCall list" where
  "analyzeCompliance getMany req =
     (let maxDistance = orDefault (maxDistance_q req) 1000;
          minPoints = orDefault (minPoints_q req) 3;
          agent = agentFilter req
      in if maxDistance \<le> 0 \<or> minPoints < 1
         then (Status400 ''maxDistance must be positive and minPoints must be at least 1'', [])
         else
           (case getMany agent of
              Inl m \<Rightarrow> (Status500 m, [])
            | Inr reports \<Rightarrow>
                if length reports = 0 then (NoData200, [])
                else
                  (let analyticsReports =
                         map toAnalyticsReport (filter hasNumericLocation reports)
                   in case analyzeComplianceReports analyticsReports maxDistance minPoints of
                        Inl e \<Rightarrow>
                          (Status500 (message e), [(analyticsReports, maxDistance, minPoints)])
                      | Inr results \<Rightarrow>
                          (Success200 results maxDistance minPoints
                             (case agent of None \<Rightarrow> ''all'' | Some a \<Rightarrow> a),
                           [(analyticsReports, maxDistance, minPoints)]))))"


section \<open>Vocabulary of the properties\<close>

text \<open>The points a result places in clusters, in the order of the clusters list.\<close>

definition clusteredPoints :: "AnalyticsResults \<Rightarrow> ClusterPoint list" where
  "clusteredPoints res = concat (map points (clusters res))"

text \<open>The points of a grouping: those of the map's entries, then the noise.\<close>

definition groupedPoints :: "grouping \<Rightarrow> ClusterPoint list" where
  "groupedPoints g = concat (map snd (fst g)) @ snd g"

text \<open>A report that is not geolocated: it has no location, or one of its
  coordinates is missing or \<^verbatim>\<open>NaN\<close>.\<close>

definition missingCoordinate :: "AnalyticsComplianceReport \<Rightarrow> bool" where
  "missingCoordinate r =
     (case location r of
        None \<Rightarrow> True
      | Some loc \<Rightarrow>
          latitude loc = None \<or> latitude loc = Some NaN \<or>
          longitude loc = None \<or> longitude loc = Some NaN)"

text \<open>The same for a row of the store, whose coordinates are arbitrary JSON values:
  anything but a number that is not \<^verbatim>\<open>NaN\<close> counts as missing, \<^verbatim>\<open>null\<close> included.\<close>

fun notANumber :: "jsval \<Rightarrow> bool" where
  "notANumber (JNumber (Num x)) = False"
| "notANumber v = True"

definition rowMissingCoordinate :: "ComplianceReportRow \<Rightarrow> bool" where
  "rowMissingCoordinate row =
     (case location_r row of
        None \<Rightarrow> True
      | Some loc \<Rightarrow> notANumber (latitude_r loc) \<or> notANumber (longitude_r loc))"

text \<open>A well-formed input: every report carries a valid date. (Its coordinates are
  numbers or absent by the type of the field.)\<close>

definition wellFormed :: "AnalyticsComplianceReport list \<Rightarrow> bool" where
  "wellFormed reports = list_all (\<lambda>r. createdAt r \<noteq> InvalidDate) reports"

text \<open>The distances from the centre of a cluster to its points.\<close>

definition centreDistances :: "ClusterInfo \<Rightarrow> real list" where
  "centreDistances c =
     map (\<lambda>p. distance (longitude' (center c), latitude' (center c)) (lng p, lat p)) (points c)"

text \<open>The notions of the clustering: a core point has at least \<open>minPts\<close> points in its
  neighbourhood; a point is reachable when it lies in the neighbourhood of a core point.\<close>

definition core :: "(real \<times> real) list \<Rightarrow> real \<Rightarrow> real \<Rightarrow> nat \<Rightarrow> bool" where
  "core ps eps minPts q = (minPts \<le> real (length (regionQuery ps eps q)))"

definition reachable :: "(real \<times> real) list \<Rightarrow> real \<Rightarrow> real \<Rightarrow> nat \<Rightarrow> bool" where
  "reachable ps eps minPts j =
     list_ex (\<lambda>q. core ps eps minPts q \<and> j \<in> set (regionQuery ps eps q)) [0..<length ps]"

text \<open>The invariant of the cluster expansion, for a worklist \<open>ws\<close>: the worklist and the
  labelled points are reachable, a labelled point is visited, and the neighbourhood of
  every visited core point is labelled or still on the worklist.\<close>

definition expandInv ::
  "(real \<times> real) list \<Rightarrow> real \<Rightarrow> real \<Rightarrow> nat list \<Rightarrow> bool list \<Rightarrow> int option list \<Rightarrow> bool" where
  "expandInv ps eps minPts ws vis lab =
     (length vis = length ps \<and> length lab = length ps
      \<and> (\<forall>j \<in> set ws. reachable ps eps minPts j)
      \<and> (\<forall>j < length ps. lab ! j \<noteq> None \<longrightarrow> reachable ps eps minPts j \<and> vis ! j)
      \<and> (\<forall>q < length ps. vis ! q \<longrightarrow> core ps eps minPts q \<longrightarrow>
            (\<forall>j \<in> set (regionQuery ps eps q). lab ! j \<noteq> None \<or> j \<in> set ws)))"

text \<open>What the grouping loop has built after the features \<open>xs\<close> (with their positions):
  the noise list holds the points without a cluster, in order; every entry of the map
  holds, in order, exactly the points that carry its cluster identifier, and is not empty;
  no identifier has two entries; and every identifier met has an entry.\<close>

definition isNoise :: "nat \<times> Feature \<Rightarrow> bool" where
  "isNoise x = (cluster (snd x) = None \<or> cluster (snd x) = Some (- 1))"

definition inCluster :: "int \<Rightarrow> nat \<times> Feature \<Rightarrow> bool" where
  "inCluster k x = (cluster (snd x) = Some k)"

definition groupInv ::
  "AnalyticsComplianceReport list \<Rightarrow> (nat \<times> Feature) list \<Rightarrow> grouping \<Rightarrow> bool" where
  "groupInv rwl xs g =
     (snd g = map (\<lambda>(i, f). toClusterPoint rwl i f) (filter isNoise xs)
      \<and> (\<forall>e \<in> set (fst g). fst e \<noteq> - 1 \<and> snd e \<noteq> []
            \<and> snd e = map (\<lambda>(i, f). toClusterPoint rwl i f) (filter (inCluster (fst e)) xs))
      \<and> distinct (map fst (fst g))
      \<and> (\<forall>x \<in> set xs. \<forall>c. cluster (snd x) = Some c \<longrightarrow> c \<noteq> - 1 \<longrightarrow> c \<in> fst ` set (fst g)))"

text \<open>The neighbourhood of a returned point among all returned points: those within
  \<open>eps\<close> kilometres of it, itself included.\<close>

definition neighbourhood :: "AnalyticsResults \<Rightarrow> real \<Rightarrow> ClusterPoint \<Rightarrow> ClusterPoint list" where
  "neighbourhood res eps p =
     filter (\<lambda>q. distance (lng p, lat p) (lng q, lat q) \<le> eps)
       (clusteredPoints res @ noise_points res)"


section \<open>Example inputs\<close>

definition reportAt :: "string \<Rightarrow> real \<Rightarrow> real \<Rightarrow> AnalyticsComplianceReport" where
  "reportAt i la lo =
     \<lparr>report_id = i, agentId = ''agent-1'', status = COMPLIANT, createdAt = Date 0,
      location = Some \<lparr>latitude = Some (Num la), longitude = Some (Num lo), address = None\<rparr>\<rparr>"

text \<open>Two reports filed at the same place.\<close>

definition samePlace :: "AnalyticsComplianceReport list" where
  "samePlace = [reportAt ''r0'' 14.5995 120.9842, reportAt ''r1'' 14.5995 120.9842]"

definition samePlaceResult :: AnalyticsResults where
  "samePlaceResult =
     \<lparr>clustering_params = \<lparr>eps_km = 1, min_samples = 2\<rparr>,
      summary =
        \<lparr>total_points = 2, n_clusters = 1, n_noise_points = 0, noise_percentage = 0,
         compliance_overview =
           \<lparr>total_compliant = 2, total_non_compliant = 0, total_fraudulent = 0\<rparr>\<rparr>,
      clusters =
        [\<lparr>cluster_id = 0, size' = 2,
          center = \<lparr>latitude' = 14.5995, longitude' = 120.9842\<rparr>,
          radius_km = 0,
          points =
            [\<lparr>index = 0, coordinates' = (120.9842, 14.5995), lng = 120.9842, lat = 14.5995,
              report = reportAt ''r0'' 14.5995 120.9842, clusterId = 0\<rparr>,
             \<lparr>index = 1, coordinates' = (120.9842, 14.5995), lng = 120.9842, lat = 14.5995,
              report = reportAt ''r1'' 14.5995 120.9842, clusterId = 0\<rparr>],
          compliance_stats = \<lparr>compliant = 2, non_compliant = 0, fraudulent = 0\<rparr>\<rparr>],
      noise_points = []\<rparr>"

text \<open>A located report of the store.\<close>

definition locatedRow :: ComplianceReportRow where
  "locatedRow =
     \<lparr>row_id = ''r0'', agentId_r = ''agent-1'', status_r = COMPLIANT, createdAt_r = Date 0,
      location_r = Some \<lparr>latitude_r = JNumber (Num 14.5995),
                          longitude_r = JNumber (Num 120.9842), address_r = None\<rparr>\<rparr>"

text \<open>A request without parameters, a request whose two parameters are 0, and a store
  that holds a located report and one whose latitude is \<^verbatim>\<open>null\<close>.\<close>

definition plainRequest :: Request where
  "plainRequest = \<lparr>maxDistance_q = NaN, minPoints_q = NaN, agentId_q = None\<rparr>"

definition zeroRequest :: Request where
  "zeroRequest = \<lparr>maxDistance_q = Num 0, minPoints_q = Num 0, agentId_q = None\<rparr>"

definition nullRow :: ComplianceReportRow where
  "nullRow =
     \<lparr>row_id = ''r1'', agentId_r = ''agent-1'', status_r = NON_COMPLIANT, createdAt_r = Date 0,
      location_r = Some \<lparr>latitude_r = JNull, longitude_r = JNumber (Num 120.9842),
                          address_r = None\<rparr>\<rparr>"

definition mixedStore :: "string option \<Rightarrow> string + ComplianceReportRow list" where
  "mixedStore agent = Inr [locatedRow, nullRow]"

definition mixedResult :: AnalyticsResults where
  "mixedResult =
     \<lparr>clustering_params = \<lparr>eps_km = 1000, min_samples = 3\<rparr>,
      summary =
        \<lparr>total_points = 1, n_clusters = 0, n_noise_points = 1, noise_percentage = 100,
         compliance_overview =
           \<lparr>total_compliant = 1, total_non_compliant = 0, total_fraudulent = 0\<rparr>\<rparr>,
      clusters = [],
      noise_points =
        [\<lparr>index = 0, coordinates' = (120.9842, 14.5995), lng = 120.9842, lat = 14.5995,
          report = reportAt ''r0'' 14.5995 120.9842, clusterId = - 1\<rparr>]\<rparr>"

text \<open>Reports along the meridian of 121 degrees east, one degree of latitude (about 111 km)
  apart or at the same place. With \<open>epsKm = 150\<close> two of them are neighbours exactly when
  their latitudes differ by at most one degree. In the first example of six reports the
  first lies next to the fifth and far from the second, third and fourth.\<close>

definition sixReports :: "AnalyticsComplianceReport list" where
  "sixReports =
     [reportAt ''r0'' 20 121, reportAt ''r1'' 10 121, reportAt ''r2'' 11 121,
      reportAt ''r3'' 12 121, reportAt ''r4'' 21 121, reportAt ''r5'' 22 121]"

text \<open>Seven reports in a row, two at each end at the same place.\<close>

definition sevenReports :: "AnalyticsComplianceReport list" where
  "sevenReports =
     [reportAt ''r0'' 10 121, reportAt ''r1'' 10 121, reportAt ''r2'' 11 121,
      reportAt ''r3'' 12 121, reportAt ''r4'' 13 121, reportAt ''r5'' 14 121,
      reportAt ''r6'' 14 121]"

text \<open>The cluster identifiers and sizes of a result, in the order of its clusters list.\<close>

definition idsAndSizes :: "AnalyticsResults \<Rightarrow> (int \<times> nat) list" where
  "idsAndSizes res = map (\<lambda>c. (cluster_id c, size' c)) (clusters res)"

text \<open>The number of noise points that the summary of a result reports.\<close>

definition noiseCount :: "AnalyticsResults \<Rightarrow> nat" where
  "noiseCount res = n_noise_points (summary res)"


section \<open>The great-circle distance\<close>

lemma pi_ge_three: "3 \<le> pi"
proof -
  have "sin (pi / 6) \<le> pi / 6" by (rule sin_x_le_x) simp
  then show ?thesis by (simp add: sin_30)
qed

lemma haversine_self: "haversine p p = 0"
  by (simp add: haversine_def degreesToRadians_def)

lemma distance_self: "distance p p = 0"
  by (simp add: distance_def haversine_self atan2_def)

lemma haversine_alt:
  "haversine p q = (1 - (sin (degreesToRadians (snd p)) * sin (degreesToRadians (snd q))
      + cos (degreesToRadians (snd p)) * cos (degreesToRadians (snd q)) * cos (degreesToRadians (fst q - fst p)))) / 2"
proof -
  have h: "(sin (x / 2))\<^sup>2 = (1 - cos x) / 2" for x :: real
    using cos_double_sin[of "x / 2"] by simp
  have d: "degreesToRadians (a - b) = degreesToRadians a - degreesToRadians b" for a b
    by (simp add: degreesToRadians_def field_simps)
  show ?thesis
    unfolding haversine_def Let_def h
    apply (subst d) 
    apply (simp add: cos_diff field_simps)
    done
qed

lemma sincos_bound: "\<bar>sin x * sin y + cos x * cos y * k\<bar> \<le> 1" if "\<bar>k\<bar> \<le> 1" for x y k :: real
proof -
  let ?c = "cos x * cos y"
  have a: "\<bar>sin x * sin y + ?c\<bar> \<le> 1" using abs_cos_le_one[of "x - y"] by (simp add: cos_diff add.commute)
  have b: "\<bar>sin x * sin y - ?c\<bar> \<le> 1" using abs_cos_le_one[of "x + y"] by (simp add: cos_add abs_minus_commute)
  have ck: "\<bar>?c * k\<bar> \<le> \<bar>?c\<bar>"
    using that mult_left_le[of "\<bar>k\<bar>" "\<bar>?c\<bar>"] by (simp add: abs_mult)
  then have "?c * k \<le> \<bar>?c\<bar>" and "- \<bar>?c\<bar> \<le> ?c * k"
    by (simp_all add: abs_le_iff)
  then have "sin x * sin y + ?c * k \<le> sin x * sin y + \<bar>?c\<bar>"
    and "sin x * sin y - \<bar>?c\<bar> \<le> sin x * sin y + ?c * k" by simp_all
  moreover have "sin x * sin y + \<bar>?c\<bar> \<le> 1" "- 1 \<le> sin x * sin y - \<bar>?c\<bar>"
    using a b by linarith+
  ultimately show ?thesis by (simp add: abs_le_iff)
qed

lemma haversine_range: "0 \<le> haversine p q" "haversine p q \<le> 1"
  using sincos_bound[of "cos (degreesToRadians (fst q - fst p))" "degreesToRadians (snd p)" "degreesToRadians (snd q)"]
  by (simp_all add: haversine_alt abs_le_iff)

lemma atan2_nonneg: "0 \<le> y \<Longrightarrow> 0 \<le> x \<Longrightarrow> 0 \<le> atan2 y x"
  by (auto simp: atan2_def)

lemma distance_nonneg: "0 \<le> distance p q"
  using haversine_range[of p q] by (simp add: distance_def Let_def earthRadius_def atan2_nonneg)

lemma distance_meridian:
  assumes "fst p = fst q" and "\<bar>snd q - snd p\<bar> < 180"
  shows "distance p q = earthRadius * (\<bar>snd q - snd p\<bar> * pi / 180)"
proof -
  define x where "x = degreesToRadians (snd q - snd p) / 2"
  have "\<bar>x\<bar> = \<bar>snd q - snd p\<bar> * (pi / 360)"
    by (simp add: x_def degreesToRadians_def abs_mult)
  also have "\<dots> < 180 * (pi / 360)"
    using assms(2) by (intro mult_strict_right_mono) simp_all
  finally have xb: "\<bar>x\<bar> < pi / 2" by simp
  then have cpos: "0 < cos x" by (simp add: cos_gt_zero_pi abs_less_iff)
  have a: "haversine p q = (sin x)\<^sup>2" by (simp add: haversine_def assms(1) x_def degreesToRadians_def)
  have "sqrt (haversine p q) = \<bar>sin x\<bar>" by (simp add: a)
  moreover have "sqrt (1 - haversine p q) = cos x" using cpos by (simp add: a flip: cos_squared_eq)
  ultimately have "atan2 (sqrt (haversine p q)) (sqrt (1 - haversine p q)) = arctan (\<bar>sin x\<bar> / cos x)"
    using cpos by (simp add: atan2_def)
  also have "\<bar>sin x\<bar> / cos x = tan \<bar>x\<bar>"
  proof (cases "0 \<le> x")
    case True
    with xb have "0 \<le> sin x" by (intro sin_ge_zero) auto
    with True show ?thesis by (simp add: tan_def)
  next
    case False
    with xb have "0 \<le> sin (- x)" by (intro sin_ge_zero) auto
    with False show ?thesis by (simp add: tan_def)
  qed
  also have "arctan (tan \<bar>x\<bar>) = \<bar>x\<bar>" using xb by (intro arctan_tan) auto
  finally show ?thesis by (simp add: distance_def Let_def x_def degreesToRadians_def abs_mult)
qed

lemma near: "fst p = fst q \<Longrightarrow> \<bar>snd q - snd p\<bar> \<le> 1 \<Longrightarrow> distance p q \<le> 150"
proof -
  assume a: "fst p = fst q" "\<bar>snd q - snd p\<bar> \<le> 1"
  then have "distance p q = earthRadius * (\<bar>snd q - snd p\<bar> * pi / 180)" by (intro distance_meridian) auto
  also have "\<dots> \<le> earthRadius * (1 * 4 / 180)"
    using a(2) pi_less_4 by (intro mult_left_mono divide_right_mono mult_mono) (auto simp: earthRadius_def)
  finally show ?thesis by (simp add: earthRadius_def)
qed

lemma far: "fst p = fst q \<Longrightarrow> 2 \<le> \<bar>snd q - snd p\<bar> \<Longrightarrow> \<bar>snd q - snd p\<bar> < 180 \<Longrightarrow> \<not> distance p q \<le> 150"
proof -
  assume a: "fst p = fst q" "2 \<le> \<bar>snd q - snd p\<bar>" "\<bar>snd q - snd p\<bar> < 180"
  then have d: "distance p q = earthRadius * (\<bar>snd q - snd p\<bar> * pi / 180)" by (intro distance_meridian) auto
  have "earthRadius * (2 * 3 / 180) \<le> earthRadius * (\<bar>snd q - snd p\<bar> * pi / 180)"
    using a(2) pi_ge_three by (intro mult_left_mono divide_right_mono mult_mono) (auto simp: earthRadius_def)
  then show ?thesis unfolding d by (simp add: earthRadius_def)
qed


section \<open>The pipeline of the service\<close>

lemma collect_Inl: "collect xs = Inl e \<Longrightarrow> Inl e \<in> set xs"
  by (induction xs) (auto split: sum.splits)

lemma collect_Inr_length: "collect xs = Inr vs \<Longrightarrow> length vs = length xs"
  by (induction xs arbitrary: vs) (auto split: sum.splits)

lemma collect_Inr_nth: "collect xs = Inr vs \<Longrightarrow> i < length xs \<Longrightarrow> xs ! i = Inr (vs ! i)"
proof (induction xs arbitrary: vs i)
  case Nil
  then show ?case by simp
next
  case (Cons x xs)
  then show ?case by (cases i) (auto split: sum.splits)
qed

lemma collect_all_Inr: "(\<And>x. x \<in> set xs \<Longrightarrow> \<exists>v. x = Inr v) \<Longrightarrow> \<exists>vs. collect xs = Inr vs"
proof (induction xs)
  case Nil
  then show ?case by simp
next
  case (Cons x xs)
  then obtain v where "x = Inr v" by auto
  moreover from Cons obtain vs where "collect xs = Inr vs" by auto
  ultimately show ?case by simp
qed

lemma toFeature_Inl:
  "toFeature i r = Inl e \<Longrightarrow> e \<noteq> Error noLocationMessage"
  by (cases "createdAt r")
     (auto simp: toFeature_def noLocationMessage_def split: option.splits jsnum.splits sum.splits)

lemma toFeatures_Inl:
  "toFeatures rs = Inl e \<Longrightarrow> e \<noteq> Error noLocationMessage"
  unfolding toFeatures_def by (drule collect_Inl) (auto dest: toFeature_Inl[OF sym])

lemma not_isNaN: "(\<not> isNaN v) = (\<exists>x. v = Num x)"
  by (cases v) simp_all

lemma hasValidLocation_iff:
  "hasValidLocation r =
     (\<exists>loc x y. location r = Some loc \<and> latitude loc = Some (Num x) \<and>
        longitude loc = Some (Num y))"
  by (auto simp: hasValidLocation_def not_isNaN split: option.splits)

lemma toFeature_Inr: "toFeature i r = Inr f \<Longrightarrow> reportIndex f = i \<and> cluster f = None \<and>
   (\<exists>loc. location r = Some loc \<and> longitude loc = Some (Num (fst (coordinates f))) \<and> latitude loc = Some (Num (snd (coordinates f))))"
  by (cases "createdAt r") (auto simp: toFeature_def split: option.splits jsnum.splits sum.splits)

lemma toFeatures_Inr:
  assumes "toFeatures rs = Inr fs"
  shows "length fs = length rs" and "\<And>i. i < length rs \<Longrightarrow> toFeature i (rs ! i) = Inr (fs ! i)"
proof -
  show len: "length fs = length rs" using collect_Inr_length[OF assms[unfolded toFeatures_def]] by simp
  fix i assume "i < length rs"
  then show "toFeature i (rs ! i) = Inr (fs ! i)"
    using collect_Inr_nth[OF assms[unfolded toFeatures_def], of i] by simp
qed


lemma expandCluster_length:
  "expandCluster ps eps minPts cid ws (vis, lab) = (vis', lab') \<Longrightarrow> length vis' = length vis \<and> length lab' = length lab"
proof (induction ps eps minPts cid ws "(vis, lab)" arbitrary: vis lab rule: expandCluster.induct)
  case (1 ps eps minPts cid vis lab)
  then show ?case by simp
next
  case (2 ps eps minPts cid j ws vis lab)
  from "2.prems" "2.hyps"[OF refl refl refl refl refl] show ?case
    by (simp add: Let_def split: if_splits)
qed

lemma dbscanLoop_length:
  "dbscanLoop ps eps minPts is (vis, lab, k) = (vis', lab', k') \<Longrightarrow>
     length vis' = length vis \<and> length lab' = length lab"
proof (induction "is" arbitrary: vis lab k)
  case Nil
  then show ?case by simp
next
  case (Cons i "is")
  show ?case
  proof (cases "\<not> vis ! i \<and> minPts \<le> real (length (regionQuery ps eps i))")
    case True
    obtain v l where e: "expandCluster ps eps minPts k (regionQuery ps eps i) (vis[i := True], lab) = (v, l)"
      by (cases "expandCluster ps eps minPts k (regionQuery ps eps i) (vis[i := True], lab)")
    with True Cons.prems have "dbscanLoop ps eps minPts is (v, l, k + 1) = (vis', lab', k')"
      by (simp add: Let_def)
    from Cons.IH[OF this] expandCluster_length[OF e] show ?thesis by simp
  next
    case False
    with Cons.prems have "dbscanLoop ps eps minPts is (vis, lab, k) = (vis', lab', k')"
      by (auto simp: Let_def split: if_splits)
    from Cons.IH[OF this] show ?thesis .
  qed
qed

lemma length_dbscanLabels: "length (dbscanLabels ps eps minPts) = length ps"
proof -
  obtain v l k where e: "dbscanLoop ps eps minPts [0..<length ps]
      (replicate (length ps) False, replicate (length ps) None, 0) = (v, l, k)"
    by (metis prod_cases3)
  from dbscanLoop_length[OF e] show ?thesis
    by (simp add: dbscanLabels_def Let_def e)
qed

lemma length_clustersDbscan: "length (clustersDbscan fs eps minPts) = length fs"
  by (simp add: clustersDbscan_def length_dbscanLabels)

lemma nth_clustersDbscan:
  "i < length fs \<Longrightarrow> clustersDbscan fs eps minPts ! i =
     (fs ! i)\<lparr>cluster := dbscanLabels (map coordinates fs) eps minPts ! i\<rparr>"
  by (simp add: clustersDbscan_def length_dbscanLabels)


lemma push_fst: "map fst (push m k cp) = map fst m"
  by (induction m) (auto simp: push_def)

lemma push_mset:
  "distinct (map fst m) \<Longrightarrow> k \<in> set (map fst m) \<Longrightarrow>
     mset (concat (map snd (push m k cp))) = add_mset cp (mset (concat (map snd m)))"
proof (induction m)
  case Nil
  then show ?case by simp
next
  case (Cons e m)
  obtain k' ps where e: "e = (k', ps)" by (cases e)
  show ?case
  proof (cases "k' = k")
    case True
    with Cons.prems e have "k \<notin> set (map fst m)" by auto
    then have "push m k cp = m" by (induction m) (auto simp: push_def)
    with True e show ?thesis by (simp add: push_def)
  next
    case False
    with Cons e show ?thesis by (auto simp: push_def)
  qed
qed

lemma addPoint_inv:
  assumes "distinct (map fst (fst g))"
  shows "distinct (map fst (fst (addPoint rwl g (i, f))))"
    and "mset (groupedPoints (addPoint rwl g (i, f))) = add_mset (toClusterPoint rwl i f) (mset (groupedPoints g))"
proof -
  obtain cm noise where g: "g = (cm, noise)" by (cases g)
  show "distinct (map fst (fst (addPoint rwl g (i, f))))"
    using assms by (auto simp: g addPoint_def Let_def push_fst has_def split: option.splits)
  show "mset (groupedPoints (addPoint rwl g (i, f))) = add_mset (toClusterPoint rwl i f) (mset (groupedPoints g))"
  proof (cases "cluster f")
    case None
    then show ?thesis by (simp add: g addPoint_def groupedPoints_def)
  next
    case (Some c)
    show ?thesis
    proof (cases "c = - 1")
      case True
      with Some show ?thesis by (simp add: g addPoint_def groupedPoints_def)
    next
      case False
      let ?m = "if has cm c then cm else cm @ [(c, [])]"
      have d: "distinct (map fst ?m)" and k: "c \<in> set (map fst ?m)" and
        c: "mset (concat (map snd ?m)) = mset (concat (map snd cm))"
        using assms by (auto simp: g has_def)
      from push_mset[OF d k] c Some False show ?thesis
        by (simp add: g addPoint_def groupedPoints_def Let_def)
    qed
  qed
qed

lemma foldl_addPoint_inv:
  "distinct (map fst (fst g)) \<Longrightarrow>
     distinct (map fst (fst (foldl (addPoint rwl) g xs))) \<and>
     mset (groupedPoints (foldl (addPoint rwl) g xs)) =
       mset (map (\<lambda>(i, f). toClusterPoint rwl i f) xs) + mset (groupedPoints g)"
proof (induction xs arbitrary: g)
  case Nil
  then show ?case by simp
next
  case (Cons x xs)
  obtain i f where x: "x = (i, f)" by (cases x)
  from addPoint_inv[OF Cons.prems, of rwl i f] Cons.IH[of "addPoint rwl g (i, f)"]
  show ?case by (simp add: x)
qed

lemma groupPoints_mset:
  "mset (groupedPoints (groupPoints rwl fs)) =
     mset (map (\<lambda>(i, f). toClusterPoint rwl i f) (zip [0..<length fs] fs))"
  and groupPoints_distinct: "distinct (map fst (fst (groupPoints rwl fs)))"
  using foldl_addPoint_inv[of "([], [])" rwl "zip [0..<length fs] fs"]
  by (simp_all add: groupPoints_def groupedPoints_def)

lemma analyze_Inr:
  assumes "analyzeComplianceReports reports epsKm minSamples = Inr res"
  obtains fs where "filter hasValidLocation reports \<noteq> []"
    and "toFeatures (filter hasValidLocation reports) = Inr fs"
    and "res = buildResults (filter hasValidLocation reports) epsKm minSamples
                 (clustersDbscan fs epsKm minSamples)"
  using assms by (auto simp: analyzeComplianceReports_def Let_def split: if_splits sum.splits)

lemma points_clusterInfo: "points (clusterInfo e) = snd e" "size' (clusterInfo e) = length (snd e)"
   "cluster_id (clusterInfo e) = fst e"
  by (cases e; simp add: clusterInfo_def Let_def)+

lemma mset_concat_perm: "mset xss = mset yss \<Longrightarrow> mset (concat xss) = mset (concat yss)"
  by (metis mset_concat sum_mset_sum_list mset_map)

lemma mset_clusteredPoints_sort:
  "mset (concat (map points (sortBySize (map clusterInfo cm)))) = mset (concat (map snd cm))"
proof -
  have "mset (map points (sortBySize (map clusterInfo cm))) = mset (map points (map clusterInfo cm))"
    by (simp only: sortBySize_def mset_map mset_sort)
  also have "map points (map clusterInfo cm) = map snd cm"
    by (simp add: points_clusterInfo)
  finally show ?thesis by (rule mset_concat_perm)
qed

lemma buildResults_fields:
  "clusters (buildResults rwl e m cfs) = sortBySize (map clusterInfo (fst (groupPoints rwl cfs)))"
  "noise_points (buildResults rwl e m cfs) = snd (groupPoints rwl cfs)"
  "total_points (summary (buildResults rwl e m cfs)) = length rwl"
  "n_noise_points (summary (buildResults rwl e m cfs)) = length (snd (groupPoints rwl cfs))"
  "n_clusters (summary (buildResults rwl e m cfs)) = length (fst (groupPoints rwl cfs))"
  by (simp_all add: buildResults_def split: prod.splits)

lemma mset_result_points:
  "mset (clusteredPoints (buildResults rwl e m cfs) @ noise_points (buildResults rwl e m cfs)) =
     mset (map (\<lambda>(i, f). toClusterPoint rwl i f) (zip [0..<length cfs] cfs))"
  using groupPoints_mset[of rwl cfs] mset_clusteredPoints_sort[of "fst (groupPoints rwl cfs)"]
  by (simp add: clusteredPoints_def buildResults_fields groupedPoints_def)

lemma clustered_features:
  assumes "toFeatures rwl = Inr fs" and "i < length rwl"
  shows "reportIndex (clustersDbscan fs e m ! i) = i"
    and "\<exists>loc. location (rwl ! i) = Some loc \<and>
          longitude loc = Some (Num (fst (coordinates (clustersDbscan fs e m ! i)))) \<and>
          latitude loc = Some (Num (snd (coordinates (clustersDbscan fs e m ! i))))"
  using toFeatures_Inr[OF assms(1)] assms(2) toFeature_Inr[of i "rwl ! i" "fs ! i"]
  by (simp_all add: nth_clustersDbscan)

lemma map_zip_upt: "map (\<lambda>(i, f). g i f) (zip [0..<length fs] fs) = map (\<lambda>i. g i (fs ! i)) [0..<length fs]"
  by (rule nth_equalityI) simp_all


lemma result_points:
  assumes "analyzeComplianceReports reports epsKm minSamples = Inr res"
  obtains fs where "toFeatures (filter hasValidLocation reports) = Inr fs"
    and "length fs = length (filter hasValidLocation reports)"
    and "res = buildResults (filter hasValidLocation reports) epsKm minSamples
                 (clustersDbscan fs epsKm minSamples)"
    and "mset (clusteredPoints res @ noise_points res) =
      mset (map (\<lambda>i. toClusterPoint (filter hasValidLocation reports) i (clustersDbscan fs epsKm minSamples ! i))
             [0..<length (filter hasValidLocation reports)])"
proof -
  let ?rwl = "filter hasValidLocation reports"
  from assms obtain fs where fs: "toFeatures ?rwl = Inr fs"
    and res: "res = buildResults ?rwl epsKm minSamples (clustersDbscan fs epsKm minSamples)"
    by (rule analyze_Inr)
  let ?cfs = "clustersDbscan fs epsKm minSamples"
  have len: "length ?cfs = length ?rwl"
    using toFeatures_Inr(1)[OF fs] by (simp add: length_clustersDbscan)
  have all: "mset (clusteredPoints res @ noise_points res) =
      mset (map (\<lambda>i. toClusterPoint ?rwl i (?cfs ! i)) [0..<length ?rwl])"
    using mset_result_points[of ?rwl epsKm minSamples ?cfs]
      map_zip_upt[of "toClusterPoint ?rwl" ?cfs]
    by (simp only: res len)
  from fs toFeatures_Inr(1)[OF fs] res all show ?thesis by (rule that)
qed

lemma result_point_cases:
  assumes "analyzeComplianceReports reports epsKm minSamples = Inr res"
    and "p \<in> set (clusteredPoints res @ noise_points res)"
  obtains i x y loc where "i < length (filter hasValidLocation reports)"
    and "index p = i" and "report p = filter hasValidLocation reports ! i"
    and "lng p = x" and "lat p = y" and "coordinates' p = (x, y)"
    and "location (report p) = Some loc" and "longitude loc = Some (Num x)" and "latitude loc = Some (Num y)"
proof -
  let ?rwl = "filter hasValidLocation reports"
  from assms(1) obtain fs where fs: "toFeatures ?rwl = Inr fs"
    and all: "mset (clusteredPoints res @ noise_points res) =
      mset (map (\<lambda>i. toClusterPoint ?rwl i (clustersDbscan fs epsKm minSamples ! i)) [0..<length ?rwl])"
    by (rule result_points)
  from all have "set (clusteredPoints res @ noise_points res) =
      set (map (\<lambda>i. toClusterPoint ?rwl i (clustersDbscan fs epsKm minSamples ! i)) [0..<length ?rwl])"
    by (rule mset_eq_setD)
  with assms(2) have "p \<in> set (map (\<lambda>i. toClusterPoint ?rwl i (clustersDbscan fs epsKm minSamples ! i)) [0..<length ?rwl])"
    by blast
  then obtain i where i: "i < length ?rwl"
    and p: "p = toClusterPoint ?rwl i (clustersDbscan fs epsKm minSamples ! i)"
    by auto
  from clustered_features[OF fs i, of epsKm minSamples] obtain loc where
    "reportIndex (clustersDbscan fs epsKm minSamples ! i) = i"
    "location (?rwl ! i) = Some loc"
    "longitude loc = Some (Num (fst (coordinates (clustersDbscan fs epsKm minSamples ! i))))"
    "latitude loc = Some (Num (snd (coordinates (clustersDbscan fs epsKm minSamples ! i))))"
    by auto
  with i p show ?thesis
    by (intro that[of i "fst (coordinates (clustersDbscan fs epsKm minSamples ! i))"
          "snd (coordinates (clustersDbscan fs epsKm minSamples ! i))" loc])
       (simp_all add: toClusterPoint_def)
qed

lemma foldl_add: "foldl (\<lambda>s p. s + f p) a xs = a + sum_list (map f xs)" for a :: real
  by (induction xs arbitrary: a) simp_all

lemma foldl_max: "foldl (\<lambda>m p. max m (f p)) a xs = Max (insert a (f ` set xs))" for a :: real
proof (induction xs arbitrary: a)
  case Nil
  then show ?case by simp
next
  case (Cons x xs)
  have "Max (insert (max a (f x)) (f ` set xs)) = Max (insert a (insert (f x) (f ` set xs)))"
    by (cases "set xs = {}") (simp_all add: max.assoc)
  with Cons show ?case by simp
qed

lemma clusterInfo_center:
  "latitude' (center (clusterInfo e)) = sum_list (map lat (snd e)) / real (length (snd e))"
  "longitude' (center (clusterInfo e)) = sum_list (map lng (snd e)) / real (length (snd e))"
  by (cases e; simp add: clusterInfo_def Let_def foldl_add)+

lemma clusterInfo_radius:
  "radius_km (clusterInfo e) = Max (insert 0 (set (centreDistances (clusterInfo e))))"
  by (cases e) (simp add: clusterInfo_def Let_def foldl_max centreDistances_def foldl_add)

lemma cluster_cases:
  assumes "analyzeComplianceReports reports epsKm minSamples = Inr res" and "c \<in> set (clusters res)"
  obtains e fs where "c = clusterInfo e"
    and "toFeatures (filter hasValidLocation reports) = Inr fs"
    and "e \<in> set (fst (groupPoints (filter hasValidLocation reports) (clustersDbscan fs epsKm minSamples)))"
proof -
  from assms(1) obtain fs where fs: "toFeatures (filter hasValidLocation reports) = Inr fs"
    and res: "res = buildResults (filter hasValidLocation reports) epsKm minSamples
                 (clustersDbscan fs epsKm minSamples)"
    by (rule analyze_Inr)
  from assms(2) obtain e where "c = clusterInfo e"
    "e \<in> set (fst (groupPoints (filter hasValidLocation reports) (clustersDbscan fs epsKm minSamples)))"
    by (auto simp: res buildResults_fields sortBySize_def)
  with fs show ?thesis by (intro that)
qed


lemma addPoint_nonempty:
  "\<forall>e \<in> set (fst g). snd e \<noteq> [] \<Longrightarrow> \<forall>e \<in> set (fst (addPoint rwl g x)). snd e \<noteq> []"
  by (cases g; cases x) (auto simp: addPoint_def Let_def push_def has_def split: option.splits if_splits)

lemma foldl_addPoint_nonempty:
  "\<forall>e \<in> set (fst g). snd e \<noteq> [] \<Longrightarrow> \<forall>e \<in> set (fst (foldl (addPoint rwl) g xs)). snd e \<noteq> []"
proof (induction xs arbitrary: g)
  case Nil
  then show ?case by simp
next
  case (Cons x xs)
  from Cons.IH[OF addPoint_nonempty[OF Cons.prems]] show ?case by simp
qed

lemma groupPoints_nonempty: "e \<in> set (fst (groupPoints rwl fs)) \<Longrightarrow> snd e \<noteq> []"
  using foldl_addPoint_nonempty[of "([], [])" rwl "zip [0..<length fs] fs"]
  by (simp add: groupPoints_def)

lemma toFeature_ok:
  "hasValidLocation r \<Longrightarrow> createdAt r \<noteq> InvalidDate \<Longrightarrow> \<exists>f. toFeature i r = Inr f"
  by (cases "createdAt r") (auto simp: hasValidLocation_iff toFeature_def)

lemma toFeatures_ok:
  assumes "\<forall>r \<in> set rs. hasValidLocation r \<and> createdAt r \<noteq> InvalidDate"
  shows "\<exists>fs. toFeatures rs = Inr fs"
  unfolding toFeatures_def
proof (rule collect_all_Inr)
  fix x assume "x \<in> set (map (\<lambda>(i, r). toFeature i r) (zip [0..<length rs] rs))"
  then obtain i r where "x = toFeature i r" "r \<in> set rs"
    by (auto dest: set_zip_rightD)
  with assms toFeature_ok[of r i] show "\<exists>v. x = Inr v" by auto
qed

lemma analyze_returns:
  assumes "wellFormed reports" and "filter hasValidLocation reports \<noteq> []"
  shows "\<exists>res. analyzeComplianceReports reports epsKm minSamples = Inr res"
proof -
  have "\<forall>r \<in> set (filter hasValidLocation reports). hasValidLocation r \<and> createdAt r \<noteq> InvalidDate"
    using assms(1) by (auto simp: wellFormed_def list_all_iff)
  from toFeatures_ok[OF this] obtain fs where "toFeatures (filter hasValidLocation reports) = Inr fs" ..
  with assms(2) show ?thesis by (simp add: analyzeComplianceReports_def Let_def)
qed

lemma analyze_error:
  assumes "wellFormed reports" and "analyzeComplianceReports reports epsKm minSamples = Inl err"
  shows "err = Error noLocationMessage \<and> filter hasValidLocation reports = []"
proof (cases "filter hasValidLocation reports = []")
  case True
  with assms(2) show ?thesis by (simp add: analyzeComplianceReports_def)
next
  case False
  from analyze_returns[OF assms(1) False, of epsKm minSamples] assms(2) show ?thesis by auto
qed


lemma Max_insert_zero:
  fixes S :: "real set"
  assumes "finite S" and "S \<noteq> {}" and "\<forall>x \<in> S. 0 \<le> x"
  shows "Max (insert 0 S) = Max S"
proof -
  have "Max S \<in> S" using assms(1,2) by (rule Max_in)
  with assms(3) have "0 \<le> Max S" by blast
  with assms show ?thesis by (simp add: max_def)
qed

lemma centreDistances_nonneg: "\<forall>x \<in> set (centreDistances c). 0 \<le> x"
  by (auto simp: centreDistances_def distance_nonneg)

lemma clusterInfo_radius_Max:
  assumes "snd e \<noteq> []"
  shows "radius_km (clusterInfo e) = Max (set (centreDistances (clusterInfo e)))"
proof -
  have "set (centreDistances (clusterInfo e)) \<noteq> {}"
    using assms by (simp add: centreDistances_def points_clusterInfo)
  then show ?thesis
    using centreDistances_nonneg[of "clusterInfo e"]
    by (simp only: clusterInfo_radius) (rule Max_insert_zero, simp_all)
qed

lemma clusterInfo_radius_nonneg: "0 \<le> radius_km (clusterInfo e)"
  by (simp add: clusterInfo_radius)

lemma clusterInfo_singleton:
  assumes "snd e = [p]"
  shows "radius_km (clusterInfo e) = 0"
proof -
  let ?c = "clusterInfo e"
  from assms have "latitude' (center ?c) = lat p" "longitude' (center ?c) = lng p"
    by (simp_all add: clusterInfo_center)
  with assms have "centreDistances ?c = [0]"
    by (simp add: centreDistances_def points_clusterInfo distance_self)
  then show ?thesis by (simp add: clusterInfo_radius)
qed


lemma missingCoordinate_iff: "missingCoordinate r = (\<not> hasValidLocation r)"
proof (cases "location r")
  case None
  then show ?thesis by (simp add: missingCoordinate_def hasValidLocation_def)
next
  case (Some loc)
  have a: "(v = None \<or> v = Some NaN) = (\<forall>x. v \<noteq> Some (Num x))" for v :: "jsnum option"
  proof (cases v)
    case None
    then show ?thesis by simp
  next
    case (Some n)
    then show ?thesis by (cases n) simp_all
  qed
  have "missingCoordinate r = ((latitude loc = None \<or> latitude loc = Some NaN) \<or> (longitude loc = None \<or> longitude loc = Some NaN))"
    by (simp add: missingCoordinate_def Some)
  also have "\<dots> = (\<not> hasValidLocation r)"
    unfolding a hasValidLocation_iff using Some by auto
  finally show ?thesis .
qed

lemma rowMissing_toAnalyticsReport:
  "rowMissingCoordinate row \<Longrightarrow> missingCoordinate (toAnalyticsReport row)"
  apply (auto simp: rowMissingCoordinate_def missingCoordinate_def toAnalyticsReport_def split: option.splits)
  subgoal for loc by (cases "latitude_r loc" rule: notANumber.cases) auto
  subgoal for loc by (cases "longitude_r loc" rule: notANumber.cases) auto
  done

lemma analyzeCompliance_Success:
  assumes "analyzeCompliance getMany req = (Success200 res d m a, calls)"
  obtains rows where "getMany (agentFilter req) = Inr rows" and
    "analyzeComplianceReports (map toAnalyticsReport (filter hasNumericLocation rows)) d m = Inr res"
  using assms by (auto simp: analyzeCompliance_def Let_def split: if_splits sum.splits)

text \<open>The guard of the handler sees the values after the defaults: a parsed value that is
  negative, or a \<open>minPoints\<close> below 1 other than 0, is rejected before the store is queried
  and before the engine is called.\<close>

lemma orDefault_guard:
  "(orDefault d 1000 \<le> 0 \<or> orDefault m 3 < 1) =
     ((\<exists>x. d = Num x \<and> x < 0) \<or> (\<exists>y. m = Num y \<and> y < 1 \<and> y \<noteq> 0))"
  by (cases d; cases m) (auto simp: orDefault_def)

lemma analyzeCompliance_rejects:
  assumes "(\<exists>x. maxDistance_q req = Num x \<and> x < 0)
         \<or> (\<exists>y. minPoints_q req = Num y \<and> y < 1 \<and> y \<noteq> 0)"
  shows "analyzeCompliance getMany req =
           (Status400 ''maxDistance must be positive and minPoints must be at least 1'', [])"
proof -
  from assms have "orDefault (maxDistance_q req) 1000 \<le> 0 \<or> orDefault (minPoints_q req) 3 < 1"
    by (simp only: orDefault_guard)
  then show ?thesis by (auto simp: analyzeCompliance_def Let_def)
qed

lemma toAnalyticsReport_valid:
  assumes "hasValidLocation (toAnalyticsReport row)"
  shows "\<not> rowMissingCoordinate row"
proof (cases "location_r row")
  case None
  with assms show ?thesis by (simp add: toAnalyticsReport_def hasValidLocation_def)
next
  case (Some loc)
  have n: "\<not> notANumber v" if "asNumber v = Some (Num x)" for v x
    using that by (cases v rule: notANumber.cases) simp_all
  from assms Some obtain x y where "asNumber (latitude_r loc) = Some (Num x)"
    "asNumber (longitude_r loc) = Some (Num y)"
    by (auto simp: hasValidLocation_iff toAnalyticsReport_def)
  with n Some show ?thesis by (simp add: rowMissingCoordinate_def)
qed

lemma handler_provenance:
  assumes "analyzeComplianceReports (map toAnalyticsReport (filter hasNumericLocation rows)) d m
      = Inr res"
    and "p \<in> set (clusteredPoints res @ noise_points res)"
  shows "\<exists>row \<in> set rows. \<not> rowMissingCoordinate row \<and> report p = toAnalyticsReport row"
proof -
  let ?in = "map toAnalyticsReport (filter hasNumericLocation rows)"
  from assms obtain i where "i < length (filter hasValidLocation ?in)"
    "report p = filter hasValidLocation ?in ! i"
    by (rule result_point_cases)
  then have "report p \<in> set (filter hasValidLocation ?in)" by (metis nth_mem)
  then obtain row where "row \<in> set rows" "report p = toAnalyticsReport row"
    "hasValidLocation (toAnalyticsReport row)" by auto
  with toAnalyticsReport_valid show ?thesis by blast
qed


lemma filter_missingCoordinate: "filter (\<lambda>r. \<not> missingCoordinate r) reports = filter hasValidLocation reports"
  by (simp add: missingCoordinate_iff)

lemma result_not_missing:
  assumes "analyzeComplianceReports reports epsKm minSamples = Inr res"
    and "p \<in> set (clusteredPoints res @ noise_points res)"
  shows "\<not> missingCoordinate (report p)"
  using assms by (rule result_point_cases) (simp add: missingCoordinate_iff hasValidLocation_iff)


section \<open>The clustering: invariants\<close>

lemma regionQuery_lt: "j \<in> set (regionQuery ps eps q) \<Longrightarrow> j < length ps"
  by (simp add: regionQuery_def)

lemma reachable_iff:
  "reachable ps eps minPts j = (\<exists>q < length ps. core ps eps minPts q \<and> j \<in> set (regionQuery ps eps q))"
  by (auto simp: reachable_def list_ex_iff)

lemma expandCluster_rule:
  assumes init: "I ws vis lab"
    and step: "\<And>j ws vis lab. I (j # ws) vis lab \<Longrightarrow>
        I (if (j < length vis \<and> \<not> vis ! j) \<and> minPts \<le> real (length (regionQuery ps eps j))
           then ws @ regionQuery ps eps j else ws)
          (if j < length vis \<and> \<not> vis ! j then vis[j := True] else vis)
          (if j < length lab \<and> lab ! j = None then lab[j := Some cid] else lab)"
  shows "I [] (fst (expandCluster ps eps minPts cid ws (vis, lab)))
              (snd (expandCluster ps eps minPts cid ws (vis, lab)))"
  using assms
proof (induction ps eps minPts cid ws "(vis, lab)" arbitrary: vis lab rule: expandCluster.induct)
  case (1 ps eps minPts cid vis lab)
  then show ?case by simp
next
  case (2 ps eps minPts cid j ws vis lab)
  from "2.hyps"[OF refl refl refl refl refl "2.prems"(2)[OF "2.prems"(1)] "2.prems"(2)]
  show ?case by (simp add: Let_def)
qed


lemma expandInv_step:
  assumes inv: "expandInv ps eps minPts (j # ws) vis lab"
  shows "expandInv ps eps minPts
      (if (j < length vis \<and> \<not> vis ! j) \<and> minPts \<le> real (length (regionQuery ps eps j))
       then ws @ regionQuery ps eps j else ws)
      (if j < length vis \<and> \<not> vis ! j then vis[j := True] else vis)
      (if j < length lab \<and> lab ! j = None then lab[j := Some cid] else lab)"
    (is "expandInv ps eps minPts ?ws ?vis ?lab")
proof -
  let ?n = "length ps"
  from inv have lv: "length vis = ?n" and ll: "length lab = ?n"
    and w: "\<forall>k \<in> set (j # ws). reachable ps eps minPts k"
    and s: "\<forall>k < ?n. lab ! k \<noteq> None \<longrightarrow> reachable ps eps minPts k \<and> vis ! k"
    and c: "\<forall>q < ?n. vis ! q \<longrightarrow> core ps eps minPts q \<longrightarrow>
            (\<forall>k \<in> set (regionQuery ps eps q). lab ! k \<noteq> None \<or> k \<in> set (j # ws))"
    by (simp_all add: expandInv_def)
  from w have rj: "reachable ps eps minPts j" by simp
  then have jn: "j < ?n" by (auto simp: reachable_iff dest: regionQuery_lt)
  have visj: "?vis ! j" using jn lv by simp
  have vis_mono: "?vis ! q" if "vis ! q" "q < ?n" for q
    using that lv by (cases "q = j") simp_all
  have vis_old: "vis ! q" if "?vis ! q" "q < ?n" "q \<noteq> j" for q
    using that lv by (simp split: if_splits)
  have labj: "?lab ! j \<noteq> None" using jn ll by simp
  have lab_other: "?lab ! k = lab ! k" if "k \<noteq> j" for k
    using that by simp
  have lab_mono: "?lab ! k \<noteq> None" if "lab ! k \<noteq> None" "k < ?n" for k
    using that ll by (cases "k = j") simp_all
  have ws_sub: "set ws \<subseteq> set ?ws" by auto
  have a: "length ?vis = ?n" "length ?lab = ?n" using lv ll by simp_all
  have b: "\<forall>k \<in> set ?ws. reachable ps eps minPts k"
  proof
    fix k assume k: "k \<in> set ?ws"
    show "reachable ps eps minPts k"
    proof (cases "k \<in> set ws")
      case True
      with w show ?thesis by simp
    next
      case False
      with k have "k \<in> set (regionQuery ps eps j)" "core ps eps minPts j"
        by (auto simp: core_def split: if_splits)
      with jn show ?thesis by (auto simp: reachable_iff)
    qed
  qed
  have c': "\<forall>k < ?n. ?lab ! k \<noteq> None \<longrightarrow> reachable ps eps minPts k \<and> ?vis ! k"
  proof (intro allI impI)
    fix k assume k: "k < ?n" "?lab ! k \<noteq> None"
    show "reachable ps eps minPts k \<and> ?vis ! k"
    proof (cases "k = j")
      case True
      with rj visj show ?thesis by simp
    next
      case False
      with k lab_other[OF False] s vis_mono[of k] show ?thesis by auto
    qed
  qed
  have d: "\<forall>q < ?n. ?vis ! q \<longrightarrow> core ps eps minPts q \<longrightarrow>
            (\<forall>k \<in> set (regionQuery ps eps q). ?lab ! k \<noteq> None \<or> k \<in> set ?ws)"
  proof (intro allI impI ballI)
    fix q k assume q: "q < ?n" "?vis ! q" "core ps eps minPts q"
      and k: "k \<in> set (regionQuery ps eps q)"
    from k have kn: "k < ?n" by (rule regionQuery_lt)
    show "?lab ! k \<noteq> None \<or> k \<in> set ?ws"
    proof (cases "q = j \<and> \<not> vis ! j")
      case True
      with q k jn lv have "k \<in> set ?ws" by (simp add: core_def)
      then show ?thesis ..
    next
      case False
      then have "vis ! q" using vis_old[OF q(2) q(1)] by auto
      with c q k have "lab ! k \<noteq> None \<or> k \<in> set (j # ws)" by blast
      then consider "lab ! k \<noteq> None" | "k = j" | "k \<in> set ws" by auto
      then show ?thesis
      proof cases
        case 1
        from lab_mono[OF this kn] show ?thesis ..
      next
        case 2
        with labj show ?thesis by simp
      next
        case 3
        with ws_sub show ?thesis by blast
      qed
    qed
  qed
  from a b c' d show ?thesis unfolding expandInv_def by blast
qed

lemma expandCluster_inv:
  assumes "expandInv ps eps minPts ws vis lab"
  shows "expandInv ps eps minPts [] (fst (expandCluster ps eps minPts cid ws (vis, lab)))
      (snd (expandCluster ps eps minPts cid ws (vis, lab)))"
  using assms by (rule expandCluster_rule) (rule expandInv_step)


lemma expandCluster_frame:
  assumes "expandCluster ps eps minPts cid ws (vis, lab) = (vis', lab')"
  shows "length vis' = length vis \<and> length lab' = length lab
     \<and> (\<forall>q < length vis. vis ! q \<longrightarrow> vis' ! q)
     \<and> (\<forall>j < length lab. lab' ! j = lab ! j \<or> (lab ! j = None \<and> lab' ! j = Some cid))"
proof -
  let ?I = "\<lambda>(ws :: nat list) v l. length v = length vis \<and> length l = length lab
     \<and> (\<forall>q < length vis. vis ! q \<longrightarrow> v ! q)
     \<and> (\<forall>j < length lab. l ! j = lab ! j \<or> (lab ! j = None \<and> l ! j = Some cid))"
  have "?I [] (fst (expandCluster ps eps minPts cid ws (vis, lab)))
      (snd (expandCluster ps eps minPts cid ws (vis, lab)))"
  proof (rule expandCluster_rule[where I = ?I])
    show "?I ws vis lab" by simp
  next
    fix j ws v l
    assume h: "?I (j # ws) v l"
    then have lv: "length v = length vis" and ll: "length l = length lab"
      and m: "\<forall>q < length vis. vis ! q \<longrightarrow> v ! q"
      and f: "\<forall>k < length lab. l ! k = lab ! k \<or> (lab ! k = None \<and> l ! k = Some cid)"
      by simp_all
    have "\<forall>q < length vis. vis ! q \<longrightarrow> (if j < length v \<and> \<not> v ! j then v[j := True] else v) ! q"
      using m lv by (auto simp: nth_list_update)
    moreover have "\<forall>k < length lab.
        (if j < length l \<and> l ! j = None then l[j := Some cid] else l) ! k = lab ! k
        \<or> (lab ! k = None \<and> (if j < length l \<and> l ! j = None then l[j := Some cid] else l) ! k = Some cid)"
      using f ll by (auto simp: nth_list_update)
    ultimately show "?I (if (j < length v \<and> \<not> v ! j) \<and> minPts \<le> real (length (regionQuery ps eps j))
           then ws @ regionQuery ps eps j else ws)
          (if j < length v \<and> \<not> v ! j then v[j := True] else v)
          (if j < length l \<and> l ! j = None then l[j := Some cid] else l)"
      using lv ll by simp
  qed
  with assms show ?thesis by simp
qed

lemma expandCluster_seed:
  assumes "expandCluster ps eps minPts cid ws (vis, lab) = (vis', lab')"
    and "s \<in> set ws" and "s < length lab" and "lab ! s = None"
  shows "lab' ! s = Some cid"
proof -
  let ?I = "\<lambda>(ws :: nat list) (v :: bool list) l. length l = length lab
     \<and> (l ! s = Some cid \<or> (l ! s = None \<and> s \<in> set ws))"
  have "?I [] (fst (expandCluster ps eps minPts cid ws (vis, lab)))
      (snd (expandCluster ps eps minPts cid ws (vis, lab)))"
  proof (rule expandCluster_rule[where I = ?I])
    show "?I ws vis lab" using assms by simp
  next
    fix j ws v l
    assume h: "?I (j # ws) v l"
    then show "?I (if (j < length v \<and> \<not> v ! j) \<and> minPts \<le> real (length (regionQuery ps eps j))
           then ws @ regionQuery ps eps j else ws)
          (if j < length v \<and> \<not> v ! j then v[j := True] else v)
          (if j < length l \<and> l ! j = None then l[j := Some cid] else l)"
      using assms(3) by (auto simp: nth_list_update)
  qed
  with assms(1) show ?thesis by simp
qed

lemma regionQuery_self:
  assumes "regionQuery ps eps i \<noteq> []" and "i < length ps"
  shows "i \<in> set (regionQuery ps eps i)"
proof -
  from assms(1) obtain j where "j \<in> set (regionQuery ps eps i)"
    by (cases "regionQuery ps eps i") auto
  then have "distance (ps ! i) (ps ! j) \<le> eps" by (simp add: regionQuery_def)
  with distance_nonneg[of "ps ! i" "ps ! j"] have "0 \<le> eps" by simp
  with assms(2) show ?thesis by (simp add: regionQuery_def distance_self)
qed


lemma dbscanLoop_inv:
  assumes "expandInv ps eps minPts [] vis lab"
    and "set is \<subseteq> {0..<length ps}"
    and "\<forall>j < length ps. \<forall>c. lab ! j = Some c \<longrightarrow>
           0 \<le> c \<and> (\<exists>s < length ps. core ps eps minPts s \<and> lab ! s = Some c)"
    and "0 \<le> k"
    and "dbscanLoop ps eps minPts is (vis, lab, k) = (vis', lab', k')"
  shows "expandInv ps eps minPts [] vis' lab'
     \<and> (\<forall>q < length ps. vis ! q \<longrightarrow> vis' ! q)
     \<and> (\<forall>i \<in> set is. core ps eps minPts i \<longrightarrow> vis' ! i)
     \<and> (\<forall>j < length ps. \<forall>c. lab' ! j = Some c \<longrightarrow>
           0 \<le> c \<and> (\<exists>s < length ps. core ps eps minPts s \<and> lab' ! s = Some c))"
  using assms
proof (induction "is" arbitrary: vis lab k)
  case Nil
  then show ?case by simp
next
  case (Cons i "is")
  let ?n = "length ps"
  from Cons.prems(2) have i: "i < ?n" and isub: "set is \<subseteq> {0..<?n}" by auto
  from Cons.prems(1) have lv: "length vis = ?n" and ll: "length lab = ?n"
    by (simp_all add: expandInv_def)
  show ?case
  proof (cases "vis ! i")
    case True
    with Cons.prems(5) have "dbscanLoop ps eps minPts is (vis, lab, k) = (vis', lab', k')" by simp
    from Cons.IH[OF Cons.prems(1) isub Cons.prems(3) Cons.prems(4) this] True i
    show ?thesis by auto
  next
    case nv: False
    show ?thesis
    proof (cases "core ps eps minPts i")
      case False
      with nv Cons.prems(5) have "dbscanLoop ps eps minPts is (vis, lab, k) = (vis', lab', k')"
        by (simp add: core_def Let_def)
      from Cons.IH[OF Cons.prems(1) isub Cons.prems(3) Cons.prems(4) this] False
      show ?thesis by auto
    next
      case True
      let ?nb = "regionQuery ps eps i"
      obtain v l where e: "expandCluster ps eps minPts k ?nb (vis[i := True], lab) = (v, l)"
        by (cases "expandCluster ps eps minPts k ?nb (vis[i := True], lab)")
      with nv True Cons.prems(5) have r: "dbscanLoop ps eps minPts is (v, l, k + 1) = (vis', lab', k')"
        by (simp add: core_def Let_def)
      have unl: "lab ! i = None"
        using Cons.prems(1) nv i by (auto simp: expandInv_def)
      have inv0: "expandInv ps eps minPts ?nb (vis[i := True]) lab"
        unfolding expandInv_def
      proof (intro conjI allI impI ballI)
        show "length (vis[i := True]) = ?n" "length lab = ?n" using lv ll by simp_all
      next
        fix j assume "j \<in> set ?nb"
        with True i show "reachable ps eps minPts j" by (auto simp: reachable_iff)
      next
        fix j assume "j < ?n" "lab ! j \<noteq> None"
        with Cons.prems(1) show "reachable ps eps minPts j" by (simp add: expandInv_def)
      next
        fix j assume j: "j < ?n" "lab ! j \<noteq> None"
        with Cons.prems(1) have "vis ! j" by (simp add: expandInv_def)
        with j lv show "vis[i := True] ! j" by (cases "j = i") simp_all
      next
        fix q j assume q: "q < ?n" "vis[i := True] ! q" "core ps eps minPts q"
          and j: "j \<in> set (regionQuery ps eps q)"
        show "lab ! j \<noteq> None \<or> j \<in> set ?nb"
        proof (cases "q = i")
          case True
          with j show ?thesis by simp
        next
          case False
          with q lv have "vis ! q" by simp
          with Cons.prems(1) q j show ?thesis by (auto simp: expandInv_def)
        qed
      qed
      from expandCluster_inv[OF inv0, of k] e have inv1: "expandInv ps eps minPts [] v l" by simp
      from expandCluster_frame[OF e] lv ll
      have fv: "\<forall>q < ?n. vis[i := True] ! q \<longrightarrow> v ! q"
        and fl: "\<forall>j < ?n. l ! j = lab ! j \<or> (lab ! j = None \<and> l ! j = Some k)"
        by simp_all
      from fv i lv have vi: "v ! i" by simp
      have mono: "\<forall>q < ?n. vis ! q \<longrightarrow> v ! q"
      proof (intro allI impI)
        fix q assume q: "q < ?n" "vis ! q"
        with lv have "vis[i := True] ! q" by (cases "q = i") simp_all
        with fv q show "v ! q" by simp
      qed
      have ok: "\<forall>j < ?n. \<forall>c. l ! j = Some c \<longrightarrow>
           0 \<le> c \<and> (\<exists>s < ?n. core ps eps minPts s \<and> l ! s = Some c)"
      proof (intro allI impI)
        fix j c assume j: "j < ?n" "l ! j = Some c"
        show "0 \<le> c \<and> (\<exists>s < ?n. core ps eps minPts s \<and> l ! s = Some c)"
        proof (cases "lab ! j = None")
          case False
          with fl j have "lab ! j = Some c" by auto
          with Cons.prems(3) j obtain s where s: "0 \<le> c" "s < ?n" "core ps eps minPts s" "lab ! s = Some c"
            by blast
          with fl have "l ! s = Some c" by auto
          with s show ?thesis by auto
        next
          case None: True
          with fl j have c: "c = k" by auto
          have "?nb \<noteq> []"
          proof
            assume "?nb = []"
            with e have "l = lab" by simp
            with None j show False by simp
          qed
          from regionQuery_self[OF this i] have "i \<in> set ?nb" .
          from expandCluster_seed[OF e this] i ll unl have "l ! i = Some k" by simp
          with c True i Cons.prems(4) show ?thesis by auto
        qed
      qed
      from Cons.prems(4) have k1: "0 \<le> k + 1" by simp
      from Cons.IH[OF inv1 isub ok k1 r] mono vi i
      show ?thesis by auto
    qed
  qed
qed


lemma dbscanLabels_props:
  fixes ps eps minPts
  defines "lab \<equiv> dbscanLabels ps eps minPts"
  shows "\<forall>j < length ps. (lab ! j \<noteq> None) = reachable ps eps minPts j"
    and "\<forall>j < length ps. \<forall>c. lab ! j = Some c \<longrightarrow>
           0 \<le> c \<and> (\<exists>s < length ps. core ps eps minPts s \<and> lab ! s = Some c)"
proof -
  let ?n = "length ps"
  obtain v l k where e: "dbscanLoop ps eps minPts [0..<?n]
      (replicate ?n False, replicate ?n None, 0) = (v, l, k)"
    by (metis prod_cases3)
  then have l: "lab = l" by (simp add: lab_def dbscanLabels_def Let_def)
  have i0: "expandInv ps eps minPts [] (replicate ?n False) (replicate ?n None)"
    by (simp add: expandInv_def)
  have "expandInv ps eps minPts [] v l
     \<and> (\<forall>q < ?n. replicate ?n False ! q \<longrightarrow> v ! q)
     \<and> (\<forall>i \<in> set [0..<?n]. core ps eps minPts i \<longrightarrow> v ! i)
     \<and> (\<forall>j < ?n. \<forall>c. l ! j = Some c \<longrightarrow>
           0 \<le> c \<and> (\<exists>s < ?n. core ps eps minPts s \<and> l ! s = Some c))"
    by (rule dbscanLoop_inv[OF i0 _ _ _ e]) simp_all
  then have inv: "expandInv ps eps minPts [] v l"
    and vis: "\<forall>i < ?n. core ps eps minPts i \<longrightarrow> v ! i"
    and ok: "\<forall>j < ?n. \<forall>c. l ! j = Some c \<longrightarrow>
           0 \<le> c \<and> (\<exists>s < ?n. core ps eps minPts s \<and> l ! s = Some c)"
    by simp_all
  from ok show "\<forall>j < ?n. \<forall>c. lab ! j = Some c \<longrightarrow>
           0 \<le> c \<and> (\<exists>s < ?n. core ps eps minPts s \<and> lab ! s = Some c)"
    by (simp add: l)
  show "\<forall>j < ?n. (lab ! j \<noteq> None) = reachable ps eps minPts j"
  proof (intro allI impI iffI)
    fix j assume "j < ?n" "lab ! j \<noteq> None"
    with inv show "reachable ps eps minPts j" by (simp add: l expandInv_def)
  next
    fix j assume "j < ?n" and "reachable ps eps minPts j"
    then obtain q where q: "q < ?n" "core ps eps minPts q" "j \<in> set (regionQuery ps eps q)"
      by (auto simp: reachable_iff)
    with vis have "v ! q" by simp
    with inv q show "lab ! j \<noteq> None" by (simp add: l expandInv_def)
  qed
qed

lemma regionQuery_mono:
  assumes "eps1 \<le> eps2"
  shows "set (regionQuery ps eps1 q) \<subseteq> set (regionQuery ps eps2 q)"
    and "length (regionQuery ps eps1 q) \<le> length (regionQuery ps eps2 q)"
proof -
  show "set (regionQuery ps eps1 q) \<subseteq> set (regionQuery ps eps2 q)"
    using assms by (auto simp: regionQuery_def)
  have "length (filter (\<lambda>j. distance (ps ! q) (ps ! j) \<le> eps1) xs)
      \<le> length (filter (\<lambda>j. distance (ps ! q) (ps ! j) \<le> eps2) xs)" for xs
    using assms by (induction xs) auto
  then show "length (regionQuery ps eps1 q) \<le> length (regionQuery ps eps2 q)"
    by (simp add: regionQuery_def)
qed

lemma reachable_mono:
  assumes "eps1 \<le> eps2" and "reachable ps eps1 minPts j"
  shows "reachable ps eps2 minPts j"
proof -
  from assms(2) obtain q where q: "q < length ps" "core ps eps1 minPts q"
    "j \<in> set (regionQuery ps eps1 q)" by (auto simp: reachable_iff)
  from q(2) regionQuery_mono(2)[OF assms(1), of ps q] have "core ps eps2 minPts q"
    by (simp add: core_def)
  with q regionQuery_mono(1)[OF assms(1), of ps q] show ?thesis
    by (auto simp: reachable_iff)
qed

lemma noise_labels_mono:
  assumes "eps1 \<le> eps2"
  shows "length (filter (\<lambda>l. l = None) (dbscanLabels ps eps2 minPts))
      \<le> length (filter (\<lambda>l. l = None) (dbscanLabels ps eps1 minPts))"
proof -
  have "{i. i < length ps \<and> dbscanLabels ps eps2 minPts ! i = None}
      \<subseteq> {i. i < length ps \<and> dbscanLabels ps eps1 minPts ! i = None}"
  proof clarify
    fix i assume i: "i < length ps" "dbscanLabels ps eps2 minPts ! i = None"
    show "dbscanLabels ps eps1 minPts ! i = None"
    proof (rule ccontr)
      assume "dbscanLabels ps eps1 minPts ! i \<noteq> None"
      with dbscanLabels_props(1)[of ps eps1 minPts] i(1) have "reachable ps eps1 minPts i" by blast
      from reachable_mono[OF assms this] dbscanLabels_props(1)[of ps eps2 minPts] i
      show False by blast
    qed
  qed
  then have "card {i. i < length ps \<and> dbscanLabels ps eps2 minPts ! i = None}
      \<le> card {i. i < length ps \<and> dbscanLabels ps eps1 minPts ! i = None}"
    by (intro card_mono) simp_all
  then show ?thesis
    by (simp add: length_filter_conv_card length_dbscanLabels)
qed


section \<open>The grouping loop\<close>

lemma set_push:
  "set (push m k cp) = (\<lambda>e. (fst e, if fst e = k then snd e @ [cp] else snd e)) ` set m"
proof -
  have "push m k cp = map (\<lambda>e. (fst e, if fst e = k then snd e @ [cp] else snd e)) m"
    unfolding push_def by (rule map_cong) auto
  then show ?thesis by simp
qed

lemma addPoint_groupInv:
  assumes inv: "groupInv rwl xs g"
  shows "groupInv rwl (xs @ [x]) (addPoint rwl g x)"
proof -
  obtain cm noise where g: "g = (cm, noise)" by (cases g)
  obtain i f where x: "x = (i, f)" by (cases x)
  let ?cp = "toClusterPoint rwl i f"
  from inv have n: "noise = map (\<lambda>(i, f). toClusterPoint rwl i f) (filter isNoise xs)"
    and en: "\<forall>e \<in> set cm. fst e \<noteq> - 1 \<and> snd e \<noteq> []
            \<and> snd e = map (\<lambda>(i, f). toClusterPoint rwl i f) (filter (inCluster (fst e)) xs)"
    and d: "distinct (map fst cm)"
    and all: "\<forall>x \<in> set xs. \<forall>c. cluster (snd x) = Some c \<longrightarrow> c \<noteq> - 1 \<longrightarrow> c \<in> fst ` set cm"
    using inv[unfolded groupInv_def g fst_conv snd_conv] by blast+
  show ?thesis
  proof (cases "isNoise x")
    case True
    then have a: "addPoint rwl g x = (cm, noise @ [?cp])"
      by (auto simp: addPoint_def g x isNoise_def Let_def split: option.splits)
    have "\<forall>e \<in> set cm. \<not> inCluster (fst e) x"
    proof
      fix e assume "e \<in> set cm"
      with en have "fst e \<noteq> - 1" by simp
      with True show "\<not> inCluster (fst e) x" by (auto simp: isNoise_def inCluster_def)
    qed
    then have notin: "\<And>e. e \<in> set cm \<Longrightarrow> \<not> inCluster (fst e) x" by blast
    have e': "\<forall>e \<in> set cm. fst e \<noteq> - 1 \<and> snd e \<noteq> []
            \<and> snd e = map (\<lambda>(i, f). toClusterPoint rwl i f) (filter (inCluster (fst e)) (xs @ [x]))"
    proof
      fix e assume e: "e \<in> set cm"
      with en have 1: "fst e \<noteq> - 1" "snd e \<noteq> []"
        "snd e = map (\<lambda>(i, f). toClusterPoint rwl i f) (filter (inCluster (fst e)) xs)"
        by blast+
      from notin[OF e]
      have eq: "filter (inCluster (fst e)) (xs @ [x]) = filter (inCluster (fst e)) xs" by simp
      show "fst e \<noteq> - 1 \<and> snd e \<noteq> []
            \<and> snd e = map (\<lambda>(i, f). toClusterPoint rwl i f) (filter (inCluster (fst e)) (xs @ [x]))"
        unfolding eq using 1 by blast
    qed
    from True n have n': "noise @ [?cp] =
        map (\<lambda>(i, f). toClusterPoint rwl i f) (filter isNoise (xs @ [x]))"
      by (simp add: x)
    have all': "\<forall>y \<in> set (xs @ [x]). \<forall>k. cluster (snd y) = Some k \<longrightarrow> k \<noteq> - 1 \<longrightarrow>
        k \<in> fst ` set cm"
      using all True by (auto simp: isNoise_def)
    from n'[symmetric] e' d all' show ?thesis
      unfolding groupInv_def a fst_conv snd_conv by (intro conjI) (assumption | rule sym)+
  next
    case False
    then obtain c where c: "cluster f = Some c" "c \<noteq> - 1"
      by (auto simp: isNoise_def x)
    let ?m = "if has cm c then cm else cm @ [(c, [])]"
    from c have a: "addPoint rwl g x = (push ?m c ?cp, noise)"
      by (simp add: addPoint_def g x Let_def)
    have xc: "inCluster k (i, f) = (k = c)" for k using c by (auto simp: inCluster_def)
    have fresh: "filter (inCluster c) xs = []" if "\<not> has cm c"
    proof -
      have "\<not> inCluster c y" if "y \<in> set xs" for y
      proof
        assume "inCluster c y"
        with all that c(2) have "c \<in> fst ` set cm" by (auto simp: inCluster_def)
        with \<open>\<not> has cm c\<close> show False by (simp add: has_def)
      qed
      then show ?thesis by (simp add: filter_empty_conv)
    qed
    have e': "\<forall>e \<in> set (push ?m c ?cp). fst e \<noteq> - 1 \<and> snd e \<noteq> []
            \<and> snd e = map (\<lambda>(i, f). toClusterPoint rwl i f) (filter (inCluster (fst e)) (xs @ [x]))"
    proof
      fix e assume "e \<in> set (push ?m c ?cp)"
      then obtain e0 where e0: "e0 \<in> set ?m"
        and e: "e = (fst e0, if fst e0 = c then snd e0 @ [?cp] else snd e0)"
        by (auto simp: set_push)
      show "fst e \<noteq> - 1 \<and> snd e \<noteq> []
            \<and> snd e = map (\<lambda>(i, f). toClusterPoint rwl i f) (filter (inCluster (fst e)) (xs @ [x]))"
      proof (cases "e0 \<in> set cm")
        case True
        with en have "fst e0 \<noteq> - 1" "snd e0 \<noteq> []"
          "snd e0 = map (\<lambda>(i, f). toClusterPoint rwl i f) (filter (inCluster (fst e0)) xs)"
          by auto
        then show ?thesis by (simp add: e xc x)
      next
        case False
        with e0 have "e0 = (c, [])" "\<not> has cm c" by (auto split: if_splits)
        with fresh c(2) show ?thesis by (simp add: e xc x)
      qed
    qed
    have d': "distinct (map fst (push ?m c ?cp))"
      using d by (auto simp: push_fst has_def)
    have keys: "fst ` set (push ?m c ?cp) = insert c (fst ` set cm)"
    proof -
      have "fst ` set (push ?m c ?cp) = set (map fst (push ?m c ?cp))" by simp
      also have "\<dots> = set (map fst ?m)" by (simp only: push_fst)
      also have "\<dots> = insert c (fst ` set cm)" by (auto simp: has_def)
      finally show ?thesis .
    qed
    have all': "\<forall>y \<in> set (xs @ [x]). \<forall>k. cluster (snd y) = Some k \<longrightarrow> k \<noteq> - 1 \<longrightarrow>
        k \<in> fst ` set (push ?m c ?cp)"
      using all c by (auto simp: keys x)
    from False n have n': "noise = map (\<lambda>(i, f). toClusterPoint rwl i f) (filter isNoise (xs @ [x]))"
      by simp
    from n' e' d' all' show ?thesis
      unfolding groupInv_def a fst_conv snd_conv by (intro conjI)
  qed
qed

lemma foldl_addPoint_groupInv: "groupInv rwl xs (foldl (addPoint rwl) ([], []) xs)"
proof (induction xs rule: rev_induct)
  case Nil
  then show ?case by (simp add: groupInv_def)
next
  case (snoc x xs)
  from addPoint_groupInv[OF snoc] show ?case by simp
qed

lemma groupPoints_groupInv: "groupInv rwl (zip [0..<length fs] fs) (groupPoints rwl fs)"
  unfolding groupPoints_def by (rule foldl_addPoint_groupInv)


lemma insort_key_stable_wrt:
  fixes f :: "'a \<Rightarrow> 'k::linorder"
  assumes "sorted_wrt (\<lambda>a b. f a \<le> f b \<and> (f a = f b \<longrightarrow> Q a b)) ys" and "\<forall>y \<in> set ys. Q x y"
  shows "sorted_wrt (\<lambda>a b. f a \<le> f b \<and> (f a = f b \<longrightarrow> Q a b)) (insort_key f x ys)"
  using assms
proof (induction ys)
  case Nil
  then show ?case by simp
next
  case (Cons y ys)
  show ?case
  proof (cases "f x \<le> f y")
    case True
    with Cons.prems show ?thesis by (auto intro: order_trans)
  next
    case False
    with Cons show ?thesis by (auto simp: set_insort_key)
  qed
qed

lemma sort_key_stable_wrt:
  fixes f :: "'a \<Rightarrow> 'k::linorder"
  assumes "sorted_wrt Q xs"
  shows "sorted_wrt (\<lambda>a b. f a \<le> f b \<and> (f a = f b \<longrightarrow> Q a b)) (sort_key f xs)"
  using assms
proof (induction xs)
  case Nil
  then show ?case by simp
next
  case (Cons x xs)
  then have "sorted_wrt (\<lambda>a b. f a \<le> f b \<and> (f a = f b \<longrightarrow> Q a b)) (sort_key f xs)"
    and "\<forall>y \<in> set (sort_key f xs). Q x y" by simp_all
  then show ?case by (simp add: insort_key_stable_wrt)
qed

lemma index_toClusterPoint: "index (toClusterPoint rwl i f) = i"
  by (simp add: toClusterPoint_def)

lemma groupInv_entry:
  assumes "groupInv rwl xs g" and "e \<in> set (fst g)"
  shows "fst e \<noteq> - 1" and "snd e \<noteq> []"
    and "snd e = map (\<lambda>(i, f). toClusterPoint rwl i f) (filter (inCluster (fst e)) xs)"
  using assms unfolding groupInv_def by blast+

lemma groupInv_first:
  assumes "groupInv rwl xs g" and "e \<in> set (fst g)"
  shows "index (hd (snd e)) \<in> fst ` set xs"
proof -
  let ?ys = "filter (inCluster (fst e)) xs"
  from assms have ne: "snd e \<noteq> []"
    and eq: "snd e = map (\<lambda>(i, f). toClusterPoint rwl i f) ?ys"
    unfolding groupInv_def by blast+
  from ne eq have ys: "?ys \<noteq> []" by auto
  then have "hd ?ys \<in> set xs" using hd_in_set[OF ys] by auto
  moreover have "index (hd (snd e)) = fst (hd ?ys)"
    using ys by (subst eq) (simp add: hd_map case_prod_unfold index_toClusterPoint)
  ultimately show ?thesis by auto
qed

lemma addPoint_first_order:
  assumes inv: "groupInv rwl xs g"
    and ord: "sorted_wrt (\<lambda>a b. index (hd (snd a)) < index (hd (snd b))) (fst g)"
    and new: "\<forall>y \<in> set xs. fst y < fst x"
  shows "sorted_wrt (\<lambda>a b. index (hd (snd a)) < index (hd (snd b))) (fst (addPoint rwl g x))"
proof -
  obtain cm noise where g: "g = (cm, noise)" by (cases g)
  obtain i f where x: "x = (i, f)" by (cases x)
  let ?cp = "toClusterPoint rwl i f"
  let ?R = "\<lambda>a b :: int \<times> ClusterPoint list. index (hd (snd a)) < index (hd (snd b))"
  let ?F = "\<lambda>(c :: int) (e :: int \<times> ClusterPoint list). (fst e, if fst e = c then snd e @ [?cp] else snd e)"
  have pushF: "push m c ?cp = map (?F c) m" for m c
    unfolding push_def by (rule map_cong) auto
  have ne: "\<forall>e \<in> set cm. snd e \<noteq> []" using groupInv_entry(2)[OF inv] by (simp add: g)
  have keep: "index (hd (snd (?F c e))) = index (hd (snd e))" if "e \<in> set cm" for e c
    using ne that by simp
  have low: "index (hd (snd e)) < i" if "e \<in> set cm" for e
    using groupInv_first[OF inv, of e] that new by (auto simp: g x)
  have old: "sorted_wrt ?R (map (?F c) cm)" for c
  proof -
    have "sorted_wrt (\<lambda>a b. ?R (?F c a) (?F c b)) cm"
    proof (rule sorted_wrt_mono_rel[OF _ ord[unfolded g fst_conv]])
      fix a b assume a: "a \<in> set cm" and b: "b \<in> set cm" and r: "?R a b"
      from keep[OF a, of c] keep[OF b, of c] r show "?R (?F c a) (?F c b)" by linarith
    qed
    then show ?thesis by (simp only: sorted_wrt_map)
  qed
  show ?thesis
  proof (cases "cluster f")
    case None
    with ord show ?thesis by (simp add: addPoint_def g x)
  next
    case (Some c)
    show ?thesis
    proof (cases "c = - 1 \<or> has cm c")
      case True
      with Some ord old[of c] show ?thesis
        by (auto simp: addPoint_def g x Let_def pushF)
    next
      case False
      with Some have "fst (addPoint rwl g x) = map (?F c) cm @ [(c, [?cp])]"
        by (simp add: addPoint_def g x Let_def pushF)
      moreover have "sorted_wrt ?R (map (?F c) cm @ [(c, [?cp])])"
        unfolding sorted_wrt_append using old[of c] keep low
        by (auto simp: index_toClusterPoint)
      ultimately show ?thesis by simp
    qed
  qed
qed

lemma foldl_addPoint_first_order:
  assumes "sorted_wrt (<) (map fst xs)"
  shows "sorted_wrt (\<lambda>a b. index (hd (snd a)) < index (hd (snd b)))
           (fst (foldl (addPoint rwl) ([], []) xs))"
  using assms
proof (induction xs rule: rev_induct)
  case Nil
  then show ?case by simp
next
  case (snoc x xs)
  from snoc.prems have s: "sorted_wrt (<) (map fst xs)" and n: "\<forall>y \<in> set xs. fst y < fst x"
    by (auto simp: sorted_wrt_append)
  from addPoint_first_order[OF foldl_addPoint_groupInv snoc.IH[OF s] n]
  show ?case by simp
qed

lemma groupPoints_first_order:
  "sorted_wrt (\<lambda>a b. index (hd (snd a)) < index (hd (snd b))) (fst (groupPoints rwl fs))"
proof -
  have "map fst (zip [0..<length fs] fs) = [0..<length fs]" by simp
  then have "sorted_wrt (<) (map fst (zip [0..<length fs] fs))"
    by (simp only: sorted_wrt_upt)
  then show ?thesis unfolding groupPoints_def by (rule foldl_addPoint_first_order)
qed


lemma map_sum_Inr:
  assumes "map_sum id f x = Inr y"
  obtains r where "x = Inr r" and "f r = y"
  using assms by (cases x) auto

lemma clusters_order:
  assumes "analyzeComplianceReports reports epsKm minSamples = Inr res"
  shows "sorted_wrt (\<lambda>a b. size' b \<le> size' a
            \<and> (size' a = size' b \<longrightarrow> index (hd (points a)) < index (hd (points b))))
           (clusters res)"
proof -
  from assms obtain fs where
    res: "res = buildResults (filter hasValidLocation reports) epsKm minSamples
                 (clustersDbscan fs epsKm minSamples)"
    by (rule analyze_Inr)
  let ?cm = "fst (groupPoints (filter hasValidLocation reports) (clustersDbscan fs epsKm minSamples))"
  let ?Q = "\<lambda>a b. index (hd (points a)) < index (hd (points b))"
  let ?f = "\<lambda>c. - int (size' c)"
  have "sorted_wrt ?Q (map clusterInfo ?cm)"
    using groupPoints_first_order[of "filter hasValidLocation reports" "clustersDbscan fs epsKm minSamples"]
    by (simp add: sorted_wrt_map points_clusterInfo)
  then have "sorted_wrt (\<lambda>a b. ?f a \<le> ?f b \<and> (?f a = ?f b \<longrightarrow> ?Q a b))
      (sort_key ?f (map clusterInfo ?cm))"
    by (rule sort_key_stable_wrt)
  then show ?thesis
    by (simp add: res buildResults_fields sortBySize_def)
qed


lemma length_filter_mset_cong:
  assumes "mset xs = mset ys"
  shows "length (filter P xs) = length (filter P ys)"
proof -
  have "mset (filter P xs) = mset (filter P ys)" using assms by (simp only: mset_filter)
  then show ?thesis by (rule mset_eq_length)
qed

lemma map_cluster_clustersDbscan:
  "map cluster (clustersDbscan fs eps minPts) = dbscanLabels (map coordinates fs) eps minPts"
  by (rule nth_equalityI) (simp_all add: length_clustersDbscan length_dbscanLabels nth_clustersDbscan)

lemma coordinates_clustersDbscan:
  "map coordinates (clustersDbscan fs eps minPts) = map coordinates fs"
  by (rule nth_equalityI) (simp_all add: length_clustersDbscan nth_clustersDbscan)

lemma length_filter_zip_snd:
  "length (filter (\<lambda>x. P (snd x)) (zip [0..<length ys] ys)) = length (filter P ys)"
proof -
  have "filter P (map snd (zip [0..<length ys] ys)) = map snd (filter (P \<circ> snd) (zip [0..<length ys] ys))"
    by (rule filter_map)
  then have "length (filter P ys) = length (filter (P \<circ> snd) (zip [0..<length ys] ys))"
    by simp
  then show ?thesis by (simp add: comp_def)
qed

lemma noise_count:
  "length (snd (groupPoints rwl (clustersDbscan fs eps minPts))) =
     length (filter (\<lambda>l. l = None) (dbscanLabels (map coordinates fs) eps minPts))"
proof -
  let ?cfs = "clustersDbscan fs eps minPts"
  let ?lab = "dbscanLabels (map coordinates fs) eps minPts"
  have "snd (groupPoints rwl ?cfs) =
      map (\<lambda>(i, f). toClusterPoint rwl i f) (filter isNoise (zip [0..<length ?cfs] ?cfs))"
    using groupPoints_groupInv[of rwl ?cfs] unfolding groupInv_def by blast
  then have "length (snd (groupPoints rwl ?cfs)) =
      length (filter (\<lambda>x. cluster (snd x) = None \<or> cluster (snd x) = Some (- 1))
        (zip [0..<length ?cfs] ?cfs))"
    by (simp add: isNoise_def[abs_def])
  also have "\<dots> = length (filter (\<lambda>f. cluster f = None \<or> cluster f = Some (- 1)) ?cfs)"
    by (rule length_filter_zip_snd)
  also have "\<dots> = length (filter (\<lambda>l. l = None \<or> l = Some (- 1)) (map cluster ?cfs))"
    by (simp add: filter_map comp_def)
  also have "\<dots> = length (filter (\<lambda>l. l = None \<or> l = Some (- 1)) ?lab)"
    by (simp only: map_cluster_clustersDbscan)
  also have "filter (\<lambda>l. l = None \<or> l = Some (- 1)) ?lab = filter (\<lambda>l. l = None) ?lab"
  proof (rule filter_cong[OF refl])
    fix l assume "l \<in> set ?lab"
    then obtain j where j: "j < length (map coordinates fs)" "?lab ! j = l"
      by (auto simp: in_set_conv_nth length_dbscanLabels)
    with dbscanLabels_props(2)[of "map coordinates fs" eps minPts] have "l \<noteq> Some (- 1)"
      by fastforce
    then show "(l = None \<or> l = Some (- 1)) = (l = None)" by simp
  qed
  finally show ?thesis .
qed


lemma size_clusterInfo_pos:
  assumes "analyzeComplianceReports reports epsKm minSamples = Inr res" and "c \<in> set (clusters res)"
  shows "size' c = length (points c)" and "1 \<le> size' c"
proof -
  from assms obtain e fs where c: "c = clusterInfo e"
    and e: "e \<in> set (fst (groupPoints (filter hasValidLocation reports) (clustersDbscan fs epsKm minSamples)))"
    by (rule cluster_cases)
  show "size' c = length (points c)" by (simp add: c points_clusterInfo)
  from groupPoints_nonempty[OF e] show "1 \<le> size' c"
    by (cases "snd e") (simp_all add: c points_clusterInfo)
qed

lemma cluster_has_core:
  assumes "analyzeComplianceReports reports epsKm minSamples = Inr res" and "c \<in> set (clusters res)"
  shows "\<exists>p \<in> set (points c). minSamples \<le> real (length (neighbourhood res epsKm p))"
proof -
  let ?rwl = "filter hasValidLocation reports"
  from assms(1) obtain fs where fs: "toFeatures ?rwl = Inr fs"
    and len: "length fs = length ?rwl"
    and res: "res = buildResults ?rwl epsKm minSamples (clustersDbscan fs epsKm minSamples)"
    and all: "mset (clusteredPoints res @ noise_points res) =
      mset (map (\<lambda>i. toClusterPoint ?rwl i (clustersDbscan fs epsKm minSamples ! i)) [0..<length ?rwl])"
    by (rule result_points)
  let ?cfs = "clustersDbscan fs epsKm minSamples"
  let ?ps = "map coordinates fs"
  let ?lab = "dbscanLabels ?ps epsKm minSamples"
  let ?zip = "zip [0..<length ?cfs] ?cfs"
  let ?F = "\<lambda>i. toClusterPoint ?rwl i (?cfs ! i)"
  have lc: "length ?cfs = length fs" by (rule length_clustersDbscan)
  from assms(2) obtain e where c: "c = clusterInfo e" and e: "e \<in> set (fst (groupPoints ?rwl ?cfs))"
    by (auto simp: res buildResults_fields sortBySize_def)
  note entry = groupInv_entry[OF groupPoints_groupInv e]
  from entry(2,3) have "filter (inCluster (fst e)) ?zip \<noteq> []" by auto
  then have "hd (filter (inCluster (fst e)) ?zip) \<in> set (filter (inCluster (fst e)) ?zip)"
    by (rule hd_in_set)
  then have "hd (filter (inCluster (fst e)) ?zip) \<in> set ?zip"
    and "inCluster (fst e) (hd (filter (inCluster (fst e)) ?zip))" by simp_all
  then obtain x where x: "x \<in> set ?zip" "inCluster (fst e) x" by blast
  then obtain j where j: "j < length fs" "cluster (?cfs ! j) = Some (fst e)"
    by (auto simp: in_set_zip inCluster_def lc)
  then have "?lab ! j = Some (fst e)" by (simp add: nth_clustersDbscan)
  with dbscanLabels_props(2)[of ?ps epsKm minSamples] j(1)
  obtain s where s: "s < length fs" "core ?ps epsKm minSamples s" "?lab ! s = Some (fst e)"
    by fastforce
  have "(s, ?cfs ! s) \<in> set ?zip"
    unfolding in_set_zip using s(1) lc by (intro exI[of _ s]) simp
  moreover have "inCluster (fst e) (s, ?cfs ! s)" using s by (simp add: inCluster_def nth_clustersDbscan)
  ultimately have "(s, ?cfs ! s) \<in> set (filter (inCluster (fst e)) ?zip)" by simp
  then have "?F s \<in> set (snd e)" by (subst entry(3)) force
  then have mem: "?F s \<in> set (points c)" by (simp add: c points_clusterInfo)
  have co: "(lng (?F i), lat (?F i)) = ?ps ! i" if "i < length fs" for i
    using that by (simp add: toClusterPoint_def nth_clustersDbscan)
  have "length (neighbourhood res epsKm (?F s)) =
      length (filter (\<lambda>q. distance (lng (?F s), lat (?F s)) (lng q, lat q) \<le> epsKm)
        (map ?F [0..<length ?rwl]))"
    unfolding neighbourhood_def by (rule length_filter_mset_cong[OF all])
  also have "\<dots> = length (filter (\<lambda>i. distance (?ps ! s) (lng (?F i), lat (?F i)) \<le> epsKm) [0..<length fs])"
    by (simp add: filter_map comp_def co[OF s(1)] len)
  also have "filter (\<lambda>i. distance (?ps ! s) (lng (?F i), lat (?F i)) \<le> epsKm) [0..<length fs] =
      filter (\<lambda>i. distance (?ps ! s) (?ps ! i) \<le> epsKm) [0..<length fs]"
    by (rule filter_cong[OF refl]) (simp add: co)
  also have "\<dots> = regionQuery ?ps epsKm s" by (simp add: regionQuery_def)
  finally have "length (neighbourhood res epsKm (?F s)) = length (regionQuery ?ps epsKm s)" .
  with s(2) have "minSamples \<le> real (length (neighbourhood res epsKm (?F s)))"
    by (simp add: core_def)
  with mem show ?thesis by blast
qed


section \<open>Evaluation on the example inputs\<close>

lemma filter_samePlace: "filter hasValidLocation samePlace = samePlace"
  by (simp add: samePlace_def reportAt_def hasValidLocation_def)

lemma toFeatures_samePlace:
  "toFeatures samePlace =
     Inr [\<lparr>coordinates = (120.9842, 14.5995), reportIndex = 0, reportId = ''r0'',
           agentId_p = ''agent-1'', status_p = COMPLIANT, createdAt_p = 0, cluster = None\<rparr>,
          \<lparr>coordinates = (120.9842, 14.5995), reportIndex = 1, reportId = ''r1'',
           agentId_p = ''agent-1'', status_p = COMPLIANT, createdAt_p = 0, cluster = None\<rparr>]"
  by (simp add: samePlace_def reportAt_def toFeatures_def toFeature_def)

lemma regionQuery_pair:
  "regionQuery [p, p] 1 0 = [0, 1]" "regionQuery [p, p] 1 (Suc 0) = [0, 1]"
  by (simp_all add: regionQuery_def distance_self)

lemma dbscanLabels_pair: "dbscanLabels [p, p] 1 2 = [Some 0, Some 0]"
  by (simp add: dbscanLabels_def regionQuery_pair Let_def)

lemma analyze_samePlace: "analyzeComplianceReports samePlace 1 2 = Inr samePlaceResult"
proof -
  have "clustersDbscan [f0, f1] 1 2 = [f0\<lparr>cluster := Some 0\<rparr>, f1\<lparr>cluster := Some 0\<rparr>]"
    if "coordinates f0 = coordinates f1" for f0 f1
    using that by (simp add: clustersDbscan_def dbscanLabels_pair)
  then show ?thesis
    by (simp add: analyzeComplianceReports_def filter_samePlace toFeatures_samePlace
        buildResults_def groupPoints_def addPoint_def toClusterPoint_def has_def push_def
        clusterInfo_def tally_def tallyOverall_def sortBySize_def distance_self Let_def
        samePlaceResult_def)
       (simp add: samePlace_def reportAt_def tallyOverall_def tally_def)
qed

lemma wellFormed_samePlace: "wellFormed samePlace"
  by (simp add: wellFormed_def samePlace_def reportAt_def)

lemma regionQuery_single: "0 \<le> eps \<Longrightarrow> regionQuery [p] eps 0 = [0]"
  by (simp add: regionQuery_def distance_self)

lemma dbscanLabels_single: "0 \<le> eps \<Longrightarrow> 1 < minPts \<Longrightarrow> dbscanLabels [p] eps minPts = [None]"
  by (simp add: dbscanLabels_def regionQuery_single Let_def)

lemma analyze_single:
  "analyzeComplianceReports [reportAt ''r0'' 14.5995 120.9842] 1000 3 = Inr mixedResult"
  by (simp add: analyzeComplianceReports_def hasValidLocation_def reportAt_def toFeatures_def
      toFeature_def clustersDbscan_def dbscanLabels_single buildResults_def groupPoints_def
      addPoint_def toClusterPoint_def sortBySize_def tallyOverall_def mixedResult_def Let_def)

lemma engineInput_mixedStore:
  "map toAnalyticsReport (filter hasNumericLocation [locatedRow, nullRow]) =
     [reportAt ''r0'' 14.5995 120.9842]"
  by (simp add: locatedRow_def nullRow_def hasNumericLocation_def toAnalyticsReport_def
      reportAt_def)

lemma analyzeCompliance_mixedStore:
  "analyzeCompliance mixedStore plainRequest =
     (Success200 mixedResult 1000 3 ''all'', [([reportAt ''r0'' 14.5995 120.9842], 1000, 3)])"
  by (simp add: analyzeCompliance_def plainRequest_def orDefault_def mixedStore_def agentFilter_def
      engineInput_mixedStore analyze_single[simplified] Let_def del: filter.simps list.map)

lemma distance_150_meridian:
  assumes "fst p = fst q"
    and "\<bar>snd q - snd p\<bar> \<le> 1 \<or> (2 \<le> \<bar>snd q - snd p\<bar> \<and> \<bar>snd q - snd p\<bar> < 180)"
  shows "(distance p q \<le> 150) = (\<bar>snd q - snd p\<bar> \<le> 1)"
  using assms near[of p q] far[of p q] by auto

lemma labels_six:
  "dbscanLabels (map (Pair 121) [20, 10, 11, 12, 21, 22]) 150 3 =
     [Some 1, Some 0, Some 0, Some 0, Some 1, Some 1]"
  by (simp add: dbscanLabels_def regionQuery_def distance_150_meridian Let_def)

lemma labels_seven:
  "dbscanLabels (map (Pair 121) [10, 10, 11, 12, 13, 14, 14]) 150 4 =
     [Some 0, Some 0, Some 0, Some 0, Some 1, Some 1, Some 1]"
  by (simp add: dbscanLabels_def regionQuery_def distance_150_meridian Let_def)


lemma ids_six:
  "map_sum id idsAndSizes (analyzeComplianceReports sixReports 150 3) = Inr [(1, 3), (0, 3)]"
  by (simp add: analyzeComplianceReports_def sixReports_def reportAt_def
      hasValidLocation_def toFeatures_def toFeature_def clustersDbscan_def labels_six[simplified]
      buildResults_def groupPoints_def addPoint_def toClusterPoint_def has_def push_def
      sortBySize_def idsAndSizes_def points_clusterInfo Let_def)

lemma ids_seven:
  "map_sum id idsAndSizes (analyzeComplianceReports sevenReports 150 4) = Inr [(0, 4), (1, 3)]"
  by (simp add: analyzeComplianceReports_def sevenReports_def reportAt_def
      hasValidLocation_def toFeatures_def toFeature_def clustersDbscan_def labels_seven[simplified]
      buildResults_def groupPoints_def addPoint_def toClusterPoint_def has_def push_def
      sortBySize_def idsAndSizes_def points_clusterInfo Let_def)

lemma distance_100_meridian:
  assumes "fst p = fst q"
    and "snd q = snd p \<or> (1 \<le> \<bar>snd q - snd p\<bar> \<and> \<bar>snd q - snd p\<bar> < 180)"
  shows "(distance p q \<le> 100) = (snd q = snd p)"
proof (cases "snd q = snd p")
  case True
  with assms(1) have "p = q" by (simp add: prod_eq_iff)
  with True show ?thesis by (simp add: distance_self)
next
  case False
  with assms have a: "1 \<le> \<bar>snd q - snd p\<bar>" "\<bar>snd q - snd p\<bar> < 180" by auto
  with assms(1) have d: "distance p q = earthRadius * (\<bar>snd q - snd p\<bar> * pi / 180)"
    by (intro distance_meridian) auto
  have "earthRadius * (1 * 3 / 180) \<le> earthRadius * (\<bar>snd q - snd p\<bar> * pi / 180)"
    using a(1) pi_ge_three
    by (intro mult_left_mono divide_right_mono mult_mono) (auto simp: earthRadius_def)
  with False show ?thesis unfolding d by (simp add: earthRadius_def)
qed

lemma labels_six_100:
  "dbscanLabels (map (Pair 121) [20, 10, 11, 12, 21, 22]) 100 3 =
     [None, None, None, None, None, None]"
  by (simp add: dbscanLabels_def regionQuery_def distance_100_meridian Let_def)

lemma noise_six_100:
  "map_sum id noiseCount (analyzeComplianceReports sixReports 100 3) = Inr 6"
  by (simp add: analyzeComplianceReports_def sixReports_def reportAt_def
      hasValidLocation_def toFeatures_def toFeature_def clustersDbscan_def labels_six_100[simplified]
      buildResults_def groupPoints_def addPoint_def toClusterPoint_def has_def push_def
      sortBySize_def noiseCount_def Let_def)

lemma noise_six_150:
  "map_sum id noiseCount (analyzeComplianceReports sixReports 150 3) = Inr 0"
  by (simp add: analyzeComplianceReports_def sixReports_def reportAt_def
      hasValidLocation_def toFeatures_def toFeature_def clustersDbscan_def labels_six[simplified]
      buildResults_def groupPoints_def addPoint_def toClusterPoint_def has_def push_def
      sortBySize_def noiseCount_def Let_def)


section \<open>The properties of the specification\<close>

text \<open>
  C1 (conservation and exclusivity). Whenever \<open>analyzeComplianceReports\<close> returns a result,
  the reports of the points it returns, those of all clusters followed by the noise points,
  are exactly the reports that passed the location filter, each as often as it passed;
  no input position occurs twice among the returned points, so no point is in two clusters
  or in a cluster and in the noise list; and \<open>summary.total_points\<close> is the sum of the
  cluster sizes plus the number of noise points.
\<close>

theorem C1_conservation:
  assumes "analyzeComplianceReports reports epsKm minSamples = Inr res"
  shows "mset (map report (clusteredPoints res @ noise_points res)) =
           mset (filter hasValidLocation reports)
       \<and> distinct (map index (clusteredPoints res @ noise_points res))
       \<and> total_points (summary res) =
           sum_list (map size' (clusters res)) + length (noise_points res)"
proof -
  let ?rwl = "filter hasValidLocation reports"
  from assms obtain fs where fs: "toFeatures ?rwl = Inr fs"
    and res: "res = buildResults ?rwl epsKm minSamples (clustersDbscan fs epsKm minSamples)"
    by (rule analyze_Inr)
  let ?cfs = "clustersDbscan fs epsKm minSamples"
  have len: "length ?cfs = length ?rwl"
    using toFeatures_Inr(1)[OF fs] by (simp add: length_clustersDbscan)
  have all: "mset (clusteredPoints res @ noise_points res) =
      mset (map (\<lambda>i. toClusterPoint ?rwl i (?cfs ! i)) [0..<length ?rwl])"
    using mset_result_points[of ?rwl epsKm minSamples ?cfs]
      map_zip_upt[of "toClusterPoint ?rwl" ?cfs]
    by (simp only: res len)
  have "mset (map report (clusteredPoints res @ noise_points res)) =
      mset (map report (map (\<lambda>i. toClusterPoint ?rwl i (?cfs ! i)) [0..<length ?rwl]))"
    using all by (metis mset_map)
  also have "map report (map (\<lambda>i. toClusterPoint ?rwl i (?cfs ! i)) [0..<length ?rwl]) = ?rwl"
    by (rule nth_equalityI) (simp_all add: toClusterPoint_def clustered_features(1)[OF fs])
  finally have a: "mset (map report (clusteredPoints res @ noise_points res)) = mset ?rwl" .
  have "mset (map index (clusteredPoints res @ noise_points res)) =
      mset (map index (map (\<lambda>i. toClusterPoint ?rwl i (?cfs ! i)) [0..<length ?rwl]))"
    using all by (metis mset_map)
  also have "map index (map (\<lambda>i. toClusterPoint ?rwl i (?cfs ! i)) [0..<length ?rwl]) =
      [0..<length ?rwl]"
    by (rule nth_equalityI) (simp_all add: toClusterPoint_def)
  finally have "mset (map index (clusteredPoints res @ noise_points res)) =
      mset [0..<length ?rwl]" .
  then have b: "distinct (map index (clusteredPoints res @ noise_points res))"
    by (metis distinct_upt mset_eq_imp_distinct_iff)
  have len_all: "length (clusteredPoints res) + length (noise_points res) = length ?rwl"
    using all by (metis length_append length_map length_upt minus_nat.diff_0 size_mset)
  have "map size' (clusters res) = map length (map points (clusters res))"
    by (auto simp: res buildResults_fields sortBySize_def points_clusterInfo)
  then have sz: "sum_list (map size' (clusters res)) = length (clusteredPoints res)"
    by (simp only: clusteredPoints_def length_concat)
  have tp: "total_points (summary res) = length ?rwl"
    by (simp add: res buildResults_fields)
  from len_all sz tp
  have c: "total_points (summary res) =
      sum_list (map size' (clusters res)) + length (noise_points res)"
    by simp
  from a b c show ?thesis by blast
qed

theorem C1_conservation_witness:
  "analyzeComplianceReports samePlace 1 2 = Inr samePlaceResult
   \<and> mset (map report (clusteredPoints samePlaceResult @ noise_points samePlaceResult)) =
       mset (filter hasValidLocation samePlace)
   \<and> distinct (map index (clusteredPoints samePlaceResult @ noise_points samePlaceResult))
   \<and> total_points (summary samePlaceResult) =
       sum_list (map size' (clusters samePlaceResult)) + length (noise_points samePlaceResult)"
  using C1_conservation [OF analyze_samePlace] analyze_samePlace by simp

text \<open>
  C2 (empty input). \<open>analyzeComplianceReports\<close> fails with the error
  \<^verbatim>\<open>No reports with valid location data found\<close> exactly when no report passes the
  location filter, that is, when no report has a latitude and a longitude that are both
  present and not \<^verbatim>\<open>NaN\<close> (\<open>hasValidLocation_iff\<close>). A failure is no result; and with
  at least one such report the service does not raise this error.
\<close>

theorem C2_empty_input_error:
  "(analyzeComplianceReports reports epsKm minSamples = Inl (Error noLocationMessage)) =
     (filter hasValidLocation reports = [])"
  by (auto simp: analyzeComplianceReports_def Let_def noLocationMessage_def
      split: sum.splits dest!: toFeatures_Inl)

text \<open>
  C3 (size of a cluster). In every result, the size of a cluster is the number
  of its points and is at least 1, and the cluster contains a core point: a point whose
  neighbourhood within \<open>epsKm\<close>, itself included, has at least \<open>minSamples\<close> points. The
  cluster itself can be smaller than \<open>minSamples\<close>, because a neighbour that an earlier
  cluster has absorbed is not reassigned: in the example of seven reports with
  \<open>minSamples = 4\<close> the second cluster has three points, its fourth neighbour being a
  border point of the first.
\<close>

theorem C3_cluster_size:
  assumes "analyzeComplianceReports reports epsKm minSamples = Inr res"
    and "c \<in> set (clusters res)"
  shows "size' c = length (points c) \<and> 1 \<le> size' c
       \<and> (\<exists>p \<in> set (points c). minSamples \<le> real (length (neighbourhood res epsKm p)))"
  using size_clusterInfo_pos[OF assms] cluster_has_core[OF assms] by blast

theorem C3_cluster_size_witness:
  "\<exists>res c. analyzeComplianceReports sevenReports 150 4 = Inr res
     \<and> c \<in> set (clusters res) \<and> size' c = 3
     \<and> size' c = length (points c)
     \<and> (\<exists>p \<in> set (points c). 4 \<le> real (length (neighbourhood res 150 p)))"
proof -
  from ids_seven obtain res where r: "analyzeComplianceReports sevenReports 150 4 = Inr res"
    and i: "idsAndSizes res = [(0, 4), (1, 3)]"
    by (rule map_sum_Inr)
  from i have "(1, 3) \<in> set (map (\<lambda>c. (cluster_id c, size' c)) (clusters res))"
    by (simp add: idsAndSizes_def)
  then obtain c where c: "c \<in> set (clusters res)" "size' c = 3" by auto
  from C3_cluster_size [OF r c(1)] r c show ?thesis by blast
qed

theorem C3_size_floor_counterexample:
  "map_sum id idsAndSizes (analyzeComplianceReports sevenReports 150 4) = Inr [(0, 4), (1, 3)]"
  by (rule ids_seven)

text \<open>
  C4 (monotone in epsilon). For a fixed list of reports and a fixed \<open>minSamples\<close>, if the
  service returns a result for \<open>eps1\<close> and for \<open>eps2\<close> and \<open>eps1 \<le> eps2\<close>, then the
  result for \<open>eps2\<close> has at most as many noise points as the result for \<open>eps1\<close>, both in
  \<open>summary.n_noise_points\<close> and in the noise list. The clustering leaves a point without a
  cluster exactly when it lies in the neighbourhood of no core point, and a larger
  \<open>eps\<close> only adds neighbours.
\<close>

theorem C4_noise_monotone:
  assumes "analyzeComplianceReports reports eps1 minSamples = Inr res1"
    and "analyzeComplianceReports reports eps2 minSamples = Inr res2"
    and "eps1 \<le> eps2"
  shows "n_noise_points (summary res2) \<le> n_noise_points (summary res1)
       \<and> length (noise_points res2) \<le> length (noise_points res1)"
proof -
  let ?rwl = "filter hasValidLocation reports"
  from assms(1) obtain fs where fs: "toFeatures ?rwl = Inr fs"
    and r1: "res1 = buildResults ?rwl eps1 minSamples (clustersDbscan fs eps1 minSamples)"
    by (rule analyze_Inr)
  from assms(2) obtain fs' where fs': "toFeatures ?rwl = Inr fs'"
    and r2: "res2 = buildResults ?rwl eps2 minSamples (clustersDbscan fs' eps2 minSamples)"
    by (rule analyze_Inr)
  from fs fs' have same: "fs' = fs" by simp
  from noise_labels_mono[OF assms(3), of "map coordinates fs" minSamples]
  show ?thesis
    by (simp add: r1 r2 same buildResults_fields noise_count)
qed

theorem C4_noise_monotone_witness:
  "\<exists>res1 res2. analyzeComplianceReports sixReports 100 3 = Inr res1
     \<and> analyzeComplianceReports sixReports 150 3 = Inr res2
     \<and> (100 :: real) \<le> 150
     \<and> noiseCount res1 = 6 \<and> noiseCount res2 = 0
     \<and> n_noise_points (summary res2) \<le> n_noise_points (summary res1)
     \<and> length (noise_points res2) \<le> length (noise_points res1)"
proof -
  from noise_six_100 obtain res1
    where r1: "analyzeComplianceReports sixReports 100 3 = Inr res1" and n1: "noiseCount res1 = 6"
    by (rule map_sum_Inr)
  from noise_six_150 obtain res2
    where r2: "analyzeComplianceReports sixReports 150 3 = Inr res2" and n2: "noiseCount res2 = 0"
    by (rule map_sum_Inr)
  have le: "(100 :: real) \<le> 150" by simp
  from C4_noise_monotone [OF r1 r2 le] r1 r2 le n1 n2 show ?thesis by blast
qed

text \<open>
  C5 (centroid). In every result, the centre of a cluster is the arithmetic mean of its
  points: \<open>center.latitude\<close> is the sum of the points' latitudes divided by their number,
  \<open>center.longitude\<close> the same for the longitudes. A cluster is never empty, so the mean is
  defined, and the latitude and longitude of a point are those of its report. Numbers are
  reals here, so the two sides are equal, which is within every tolerance.
\<close>

theorem C5_centroid:
  assumes "analyzeComplianceReports reports epsKm minSamples = Inr res"
    and "c \<in> set (clusters res)"
  shows "points c \<noteq> []
       \<and> latitude' (center c) = sum_list (map lat (points c)) / real (length (points c))
       \<and> longitude' (center c) = sum_list (map lng (points c)) / real (length (points c))
       \<and> (\<forall>p \<in> set (points c). \<exists>loc. location (report p) = Some loc
             \<and> latitude loc = Some (Num (lat p)) \<and> longitude loc = Some (Num (lng p)))"
proof -
  from assms obtain e fs where c: "c = clusterInfo e"
    and e: "e \<in> set (fst (groupPoints (filter hasValidLocation reports) (clustersDbscan fs epsKm minSamples)))"
    by (rule cluster_cases)
  have ne: "points c \<noteq> []" using groupPoints_nonempty[OF e] by (simp add: c points_clusterInfo)
  have m: "latitude' (center c) = sum_list (map lat (points c)) / real (length (points c))"
    "longitude' (center c) = sum_list (map lng (points c)) / real (length (points c))"
    by (simp_all add: c clusterInfo_center points_clusterInfo)
  have "\<exists>loc. location (report p) = Some loc \<and> latitude loc = Some (Num (lat p)) \<and> longitude loc = Some (Num (lng p))"
    if "p \<in> set (points c)" for p
  proof -
    from that assms(2) have "p \<in> set (clusteredPoints res @ noise_points res)"
      by (auto simp: clusteredPoints_def)
    from assms(1) this show ?thesis by (rule result_point_cases) auto
  qed
  with ne m show ?thesis by blast
qed

theorem C5_centroid_witness:
  "analyzeComplianceReports samePlace 1 2 = Inr samePlaceResult
   \<and> hd (clusters samePlaceResult) \<in> set (clusters samePlaceResult)
   \<and> latitude' (center (hd (clusters samePlaceResult))) =
       sum_list (map lat (points (hd (clusters samePlaceResult)))) /
       real (length (points (hd (clusters samePlaceResult))))
   \<and> longitude' (center (hd (clusters samePlaceResult))) =
       sum_list (map lng (points (hd (clusters samePlaceResult)))) /
       real (length (points (hd (clusters samePlaceResult))))"
proof -
  have h: "hd (clusters samePlaceResult) \<in> set (clusters samePlaceResult)"
    by (simp add: samePlaceResult_def)
  from C5_centroid [OF analyze_samePlace h] analyze_samePlace h show ?thesis by blast
qed

text \<open>
  C6 (radius). In every result, the radius of a cluster is the largest
  great-circle distance in kilometres from its centre to one of its points; it is not
  negative; and it is 0 for a cluster of one point. A radius of 0 does not imply a
  single point: two reports filed at the same place form a cluster of size 2 and radius 0.
\<close>

theorem C6_radius:
  assumes "analyzeComplianceReports reports epsKm minSamples = Inr res"
    and "c \<in> set (clusters res)"
  shows "radius_km c = Max (set (centreDistances c))
       \<and> 0 \<le> radius_km c
       \<and> (size' c = 1 \<longrightarrow> radius_km c = 0)"
proof -
  from assms obtain e fs where c: "c = clusterInfo e"
    and e: "e \<in> set (fst (groupPoints (filter hasValidLocation reports) (clustersDbscan fs epsKm minSamples)))"
    by (rule cluster_cases)
  have ne: "snd e \<noteq> []" using groupPoints_nonempty[OF e] .
  have "radius_km c = 0" if "size' c = 1"
  proof -
    from that obtain p where "snd e = [p]"
      by (cases "snd e") (auto simp: c points_clusterInfo)
    then show ?thesis by (simp add: c clusterInfo_singleton)
  qed
  with clusterInfo_radius_Max[OF ne] clusterInfo_radius_nonneg[of e] show ?thesis
    by (simp add: c)
qed

theorem C6_radius_witness:
  "analyzeComplianceReports samePlace 1 2 = Inr samePlaceResult
   \<and> hd (clusters samePlaceResult) \<in> set (clusters samePlaceResult)
   \<and> radius_km (hd (clusters samePlaceResult)) =
       Max (set (centreDistances (hd (clusters samePlaceResult))))
   \<and> 0 \<le> radius_km (hd (clusters samePlaceResult))"
proof -
  have h: "hd (clusters samePlaceResult) \<in> set (clusters samePlaceResult)"
    by (simp add: samePlaceResult_def)
  from C6_radius [OF analyze_samePlace h] analyze_samePlace h show ?thesis by blast
qed

theorem C6_radius_zero_counterexample:
  "analyzeComplianceReports samePlace 1 2 = Inr samePlaceResult
   \<and> hd (clusters samePlaceResult) \<in> set (clusters samePlaceResult)
   \<and> radius_km (hd (clusters samePlaceResult)) = 0
   \<and> size' (hd (clusters samePlaceResult)) = 2"
  using analyze_samePlace by (simp add: samePlaceResult_def)

text \<open>
  C7 (order of the clusters). In every result the clusters list is sorted by
  descending size, and clusters of equal size stand in the order in which their first
  points occur in the filtered input, which is the order in which the grouping loop
  created their map entries. This is not always the order in which the clustering
  discovered them, that is, the order of their identifiers: in the example of six reports
  the cluster with identifier 1 owns the first report and so precedes the cluster with
  identifier 0 of the same size.
\<close>

theorem C7_sorted_by_size:
  assumes "analyzeComplianceReports reports epsKm minSamples = Inr res"
  shows "sorted_wrt (\<lambda>a b. size' b \<le> size' a) (clusters res)
       \<and> sorted_wrt (\<lambda>a b. size' a = size' b \<longrightarrow> index (hd (points a)) < index (hd (points b)))
           (clusters res)"
proof -
  note o = clusters_order[OF assms]
  have "sorted_wrt (\<lambda>a b. size' b \<le> size' a) (clusters res)"
    by (rule sorted_wrt_mono_rel[OF _ o]) simp
  moreover have "sorted_wrt (\<lambda>a b. size' a = size' b \<longrightarrow> index (hd (points a)) < index (hd (points b)))
      (clusters res)"
    by (rule sorted_wrt_mono_rel[OF _ o]) simp
  ultimately show ?thesis ..
qed

theorem C7_sorted_by_size_witness:
  "\<exists>res. analyzeComplianceReports sixReports 150 3 = Inr res
     \<and> idsAndSizes res = [(1, 3), (0, 3)]
     \<and> sorted_wrt (\<lambda>a b. size' b \<le> size' a) (clusters res)
     \<and> sorted_wrt (\<lambda>a b. size' a = size' b \<longrightarrow> index (hd (points a)) < index (hd (points b)))
         (clusters res)"
proof -
  from ids_six obtain res where r: "analyzeComplianceReports sixReports 150 3 = Inr res"
    and i: "idsAndSizes res = [(1, 3), (0, 3)]"
    by (rule map_sum_Inr)
  from C7_sorted_by_size [OF r] r i show ?thesis by blast
qed

theorem C7_tie_order_counterexample:
  "map_sum id idsAndSizes (analyzeComplianceReports sixReports 150 3) = Inr [(1, 3), (0, 3)]"
  by (rule ids_six)

text \<open>
  C8 (filtering). A report without a location, or whose latitude or longitude is
  \<^verbatim>\<open>undefined\<close> or \<^verbatim>\<open>NaN\<close>, is the report of no point that \<open>analyzeComplianceReports\<close>
  returns, in a cluster or in the noise list, and \<open>summary.total_points\<close> counts exactly the
  other reports. A \<^verbatim>\<open>null\<close> coordinate is not a value of the service's input type; it is
  stopped one step earlier, by the handler: every point in the result that the handler
  answers with is the report of a row of the store whose latitude and longitude are both
  numbers, so a row whose latitude or longitude is \<^verbatim>\<open>null\<close>, \<^verbatim>\<open>undefined\<close>, \<^verbatim>\<open>NaN\<close> or not a
  number at all contributes no point.
\<close>

theorem C8_filtering:
  "(analyzeComplianceReports reports epsKm minSamples = Inr res \<longrightarrow>
      (\<forall>p \<in> set (clusteredPoints res @ noise_points res). \<not> missingCoordinate (report p))
      \<and> total_points (summary res) = length (filter (\<lambda>r. \<not> missingCoordinate r) reports))
   \<and> (analyzeCompliance getMany req = (Success200 res' d m a, calls) \<longrightarrow>
      (\<exists>rows. getMany (agentFilter req) = Inr rows
         \<and> (\<forall>p \<in> set (clusteredPoints res' @ noise_points res').
               \<exists>row \<in> set rows. \<not> rowMissingCoordinate row \<and> report p = toAnalyticsReport row)))"
proof (intro conjI impI)
  assume r: "analyzeComplianceReports reports epsKm minSamples = Inr res"
  then show "\<forall>p \<in> set (clusteredPoints res @ noise_points res). \<not> missingCoordinate (report p)"
    using result_not_missing by blast
  from r obtain fs where "res = buildResults (filter hasValidLocation reports) epsKm minSamples
      (clustersDbscan fs epsKm minSamples)"
    by (rule analyze_Inr)
  then show "total_points (summary res) = length (filter (\<lambda>r. \<not> missingCoordinate r) reports)"
    by (simp add: buildResults_fields filter_missingCoordinate)
next
  assume h: "analyzeCompliance getMany req = (Success200 res' d m a, calls)"
  from h obtain rows where g: "getMany (agentFilter req) = Inr rows" and
    e: "analyzeComplianceReports (map toAnalyticsReport (filter hasNumericLocation rows)) d m
      = Inr res'"
    by (rule analyzeCompliance_Success)
  from handler_provenance[OF e] g
  show "\<exists>rows. getMany (agentFilter req) = Inr rows
         \<and> (\<forall>p \<in> set (clusteredPoints res' @ noise_points res').
               \<exists>row \<in> set rows. \<not> rowMissingCoordinate row \<and> report p = toAnalyticsReport row)"
    by blast
qed

theorem C8_filtering_witness:
  "analyzeComplianceReports samePlace 1 2 = Inr samePlaceResult
   \<and> hd (noise_points mixedResult) \<in> set (clusteredPoints mixedResult @ noise_points mixedResult)
   \<and> \<not> missingCoordinate (report (hd (noise_points mixedResult)))
   \<and> total_points (summary samePlaceResult) =
       length (filter (\<lambda>r. \<not> missingCoordinate r) samePlace)
   \<and> analyzeCompliance mixedStore plainRequest =
       (Success200 mixedResult 1000 3 ''all'', [([reportAt ''r0'' 14.5995 120.9842], 1000, 3)])
   \<and> mixedStore (agentFilter plainRequest) = Inr [locatedRow, nullRow]
   \<and> rowMissingCoordinate nullRow
   \<and> \<not> rowMissingCoordinate locatedRow
   \<and> report (hd (noise_points mixedResult)) = toAnalyticsReport locatedRow"
proof -
  have n: "rowMissingCoordinate nullRow" "\<not> rowMissingCoordinate locatedRow"
    by (simp_all add: rowMissingCoordinate_def nullRow_def locatedRow_def)
  have p: "hd (noise_points mixedResult) \<in> set (clusteredPoints mixedResult @ noise_points mixedResult)"
    by (simp add: mixedResult_def)
  have s: "mixedStore (agentFilter plainRequest) = Inr [locatedRow, nullRow]"
    by (simp add: mixedStore_def)
  note t = C8_filtering [of samePlace 1 2 samePlaceResult mixedStore plainRequest mixedResult
      1000 3 "''all''" "[([reportAt ''r0'' 14.5995 120.9842], 1000, 3)]"]
  from t analyzeCompliance_mixedStore s p
  obtain row where row: "row \<in> set [locatedRow, nullRow]" "\<not> rowMissingCoordinate row"
    "report (hd (noise_points mixedResult)) = toAnalyticsReport row"
    by (metis sum.inject(2))
  with n have a: "report (hd (noise_points mixedResult)) = toAnalyticsReport locatedRow"
    by auto
  from t analyze_samePlace
  have b: "total_points (summary samePlaceResult) =
      length (filter (\<lambda>r. \<not> missingCoordinate r) samePlace)"
    by (elim conjE) (drule mp, assumption, elim conjE)
  have c: "\<not> missingCoordinate (report (hd (noise_points mixedResult)))"
    using result_not_missing[OF analyze_single p] .
  from a b c analyze_samePlace analyzeCompliance_mixedStore n p s
  show ?thesis by (intro conjI)
qed

text \<open>
  C9 (totality). On a well-formed input (every report carries a valid date) with at least
  one report that passes the location filter, \<open>analyzeComplianceReports\<close> returns a result,
  for every \<open>epsKm\<close>, zero and negative values included, and every \<open>minSamples\<close>; the
  clustering terminates on every input. On a well-formed input the only error it raises is
  \<^verbatim>\<open>No reports with valid location data found\<close>.
\<close>

theorem C9_total:
  assumes "wellFormed reports"
  shows "(filter hasValidLocation reports \<noteq> [] \<longrightarrow>
            (\<exists>res. analyzeComplianceReports reports epsKm minSamples = Inr res))
       \<and> (\<forall>err. analyzeComplianceReports reports epsKm minSamples = Inl err \<longrightarrow>
            err = Error noLocationMessage)"
  using analyze_returns[OF assms] analyze_error[OF assms] by blast

theorem C9_total_witness:
  "wellFormed samePlace \<and> filter hasValidLocation samePlace \<noteq> []
   \<and> (\<exists>res. analyzeComplianceReports samePlace (- 3) 0 = Inr res)"
proof -
  have f: "filter hasValidLocation samePlace \<noteq> []"
    by (simp add: filter_samePlace) (simp add: samePlace_def)
  from C9_total [OF wellFormed_samePlace, of "- 3" 0] f wellFormed_samePlace
  show ?thesis by blast
qed

text \<open>
  C10 (validation before the engine). The guard \<^verbatim>\<open>maxDistance <= 0 || minPoints < 1\<close> of the
  handler is reached after \<^verbatim>\<open>Number(x) || d\<close> has replaced a parsed 0 by the default. A
  request with \<^verbatim>\<open>maxDistance=0\<close> and \<^verbatim>\<open>minPoints=0\<close>, whose parsed \<open>maxDistance\<close> is not
  greater than 0 and whose parsed \<open>minPoints\<close> is less than 1, is therefore not answered with
  status 400: the handler answers 200 and has called the clustering engine, with 1000 and 3.
\<close>

theorem C10_zero_not_rejected:
  "maxDistance_q zeroRequest = Num 0 \<and> minPoints_q zeroRequest = Num 0
   \<and> analyzeCompliance mixedStore zeroRequest =
       (Success200 mixedResult 1000 3 ''all'', [([reportAt ''r0'' 14.5995 120.9842], 1000, 3)])"
  by (simp add: analyzeCompliance_def zeroRequest_def orDefault_def mixedStore_def agentFilter_def
      engineInput_mixedStore analyze_single[simplified] Let_def del: filter.simps list.map)

end
